theory Spec2Isabelle
  imports Main "HOL-Library.Word"
begin

unbundle bit_operations_syntax

section \<open>The operating system as seen by \<^verbatim>\<open>crypto/rand/urandom.c\<close>\<close>

text \<open>
  The file talks to the kernel through a handful of calls. Each call that hands a result
  back takes the next reply of a script held in the world; a call issued when the script is
  empty never returns (\<open>Block\<close>). Every call, diagnostic, sleep and lock operation is
  appended to a trace, so that what the code did can be read off afterwards.
\<close>

type_synonym byte = "8 word"

datatype errno_val = EINTR | EAGAIN | ENOSYS | EOTHER nat

text \<open>
  A reply of the kernel: the return value, the \<open>errno\<close> it leaves when the return value is
  \<open>-1\<close>, the bytes it copies to the caller's buffer (\<open>read\<close>, \<open>getrandom\<close>) and the value it
  stores through an out-parameter (\<open>entropy_bits\<close> of \<open>RNDGETENTCNT\<close>).
\<close>

record reply =
  rv :: int
  rerrno :: errno_val
  rdata :: "byte list"
  rout :: int

text \<open>\<open>Dummy\<close> is the local \<open>uint8_t dummy\<close> of \<open>init_once\<close>; \<open>Buf a\<close> is address \<open>a\<close> of the heap.\<close>

datatype ptr = Dummy | Buf nat

datatype sys_call =
    Sys_getrandom ptr nat int
  | Sys_open
  | Sys_read int nat nat
  | Sys_ioctl_RNDGETENTCNT int
  | Sys_fcntl_GETFD int
  | Sys_fcntl_SETFD int int
  | Sys_dup int

datatype diag =
    Msg_pool_not_initialized
  | Msg_RNDGETENTCNT_failed
  | Msg_too_few_bits int int

datatype event =
    Call sys_call reply
  | Fprintf diag
  | Usleep nat
  | Close int
  | Lock_read
  | Unlock_read
  | Lock_write
  | Unlock_write

text \<open>
  The build: whether \<open>USE_SYS_getrandom\<close> and \<open>BORINGSSL_FIPS\<close> are defined, and the width of
  \<open>size_t\<close> on the target.
\<close>

record config =
  use_sys_getrandom :: bool
  boringssl_fips :: bool
  size_bits :: nat

text \<open>The file's static variables, the global \<open>errno\<close>, the heap, the script and the trace.\<close>

record world =
  urandom_fd_requested :: int
  urandom_fd :: int
  once :: bool
  errno :: errno_val
  mem :: "nat \<Rightarrow> byte"
  kernel :: "reply list"
  trace :: "event list"

datatype 'a outcome =
    is_Return: Return (result: 'a) (world_of: world)
  | is_Abort: Abort (world_of: world)
  | is_Block: Block (world_of: world)

definition kUnset :: int where
  "kUnset = - 2"

definition kHaveGetrandom :: int where
  "kHaveGetrandom = - 3"

definition GRND_NONBLOCK :: int where
  "GRND_NONBLOCK = 1"

definition FD_CLOEXEC :: int where
  "FD_CLOEXEC = 1"

definition kBitsNeeded :: int where
  "kBitsNeeded = 256"

definition store :: "(nat \<Rightarrow> byte) \<Rightarrow> nat \<Rightarrow> byte list \<Rightarrow> (nat \<Rightarrow> byte)" where
  "store m a bs = (\<lambda>p. if a \<le> p \<and> p < a + length bs then bs ! (p - a) else m p)"

text \<open>What the kernel copies to the caller's memory when a call hands back \<open>r\<close>.\<close>

fun kernel_writes :: "sys_call \<Rightarrow> reply \<Rightarrow> (nat \<Rightarrow> byte) \<Rightarrow> (nat \<Rightarrow> byte)" where
  "kernel_writes (Sys_getrandom (Buf a) n f) r m = (if 0 < rv r then store m a (rdata r) else m)"
| "kernel_writes (Sys_read fd a n) r m = (if 0 < rv r then store m a (rdata r) else m)"
| "kernel_writes c r m = m"

definition log :: "event \<Rightarrow> world \<Rightarrow> world" where
  "log e w = w\<lparr>trace := trace w @ [e]\<rparr>"

text \<open>The world after call \<open>c\<close> has been answered with \<open>r\<close>; \<open>errno\<close> is set when \<open>r\<close> is \<open>-1\<close>.\<close>

definition answered :: "sys_call \<Rightarrow> reply \<Rightarrow> world \<Rightarrow> world" where
  "answered c r w =
     w\<lparr>errno := (if rv r = - 1 then rerrno r else errno w),
       mem := kernel_writes c r (mem w),
       trace := trace w @ [Call c r]\<rparr>"

definition syscall :: "sys_call \<Rightarrow> world \<Rightarrow> reply outcome" where
  "syscall c w =
     (case kernel w of
        [] \<Rightarrow> Block w
      | r # rs \<Rightarrow> Return r (answered c r (w\<lparr>kernel := rs\<rparr>)))"

section \<open>The code\<close>

text \<open>
  The loop shape \<^verbatim>\<open>do { r = call; } while (r == -1 && errno == EINTR);\<close>, which the file
  writes out four times (lines 119-122, 132-134, 220-222 and 238-240).
\<close>

function do_while_EINTR :: "sys_call \<Rightarrow> world \<Rightarrow> reply outcome" where
  "do_while_EINTR c w =
     (case syscall c w of
        Return r w' \<Rightarrow>
          if rv r = - 1 \<and> errno w' = EINTR then do_while_EINTR c w' else Return r w'
      | Abort w' \<Rightarrow> Abort w'
      | Block w' \<Rightarrow> Block w')"
  by pat_completeness auto
termination
  by (relation "measure (\<lambda>(c, w). length (kernel w))")
     (auto simp: syscall_def answered_def split: list.splits)

declare do_while_EINTR.simps [simp del]

text \<open>
  Modelled from the spec: \<open>CRYPTO_once\<close> lives in the library's thread support, outside this
  file. The spec's one-time-execution guard: the initializer runs exactly once, and callers
  go on only after it has completed.
\<close>

definition CRYPTO_once :: "(world \<Rightarrow> unit outcome) \<Rightarrow> world \<Rightarrow> unit outcome" where
  "CRYPTO_once init w =
     (if once w then Return () w
      else (case init w of
              Return u w' \<Rightarrow> Return () (w'\<lparr>once := True\<rparr>)
            | Abort w' \<Rightarrow> Abort w'
            | Block w' \<Rightarrow> Block w'))"

text \<open>
  Modelled from the spec: the operations of \<open>CRYPTO_STATIC_MUTEX\<close> live in the library's
  thread support, outside this file. The spec's read/write lock gives mutual exclusion on
  the stored value only; with one thread running at a time, taking and releasing it is an
  event of the trace.
\<close>

abbreviation CRYPTO_STATIC_MUTEX_lock_read :: "world \<Rightarrow> world" where
  "CRYPTO_STATIC_MUTEX_lock_read w \<equiv> log Lock_read w"

abbreviation CRYPTO_STATIC_MUTEX_unlock_read :: "world \<Rightarrow> world" where
  "CRYPTO_STATIC_MUTEX_unlock_read w \<equiv> log Unlock_read w"

abbreviation CRYPTO_STATIC_MUTEX_lock_write :: "world \<Rightarrow> world" where
  "CRYPTO_STATIC_MUTEX_lock_write w \<equiv> log Lock_write w"

abbreviation CRYPTO_STATIC_MUTEX_unlock_write :: "world \<Rightarrow> world" where
  "CRYPTO_STATIC_MUTEX_unlock_write w \<equiv> log Unlock_write w"

text \<open>
  Lines 106-129, compiled only under \<open>USE_SYS_getrandom\<close>: the non-blocking probe and, on
  \<open>EAGAIN\<close>, the blocking fetch. \<open>True\<close> means the function has committed and returned.
\<close>

definition init_getrandom :: "world \<Rightarrow> bool outcome" where
  "init_getrandom w =
     (case syscall (Sys_getrandom Dummy 1 GRND_NONBLOCK) w of
        Return r w1 \<Rightarrow>
          if rv r = 1 then Return True (w1\<lparr>urandom_fd := kHaveGetrandom\<rparr>)
          else if rv r = - 1 \<and> errno w1 = EAGAIN then
            (case do_while_EINTR (Sys_getrandom Dummy 1 0) (log (Fprintf Msg_pool_not_initialized) w1) of
               Return r2 w2 \<Rightarrow>
                 if rv r2 = 1 then Return True (w2\<lparr>urandom_fd := kHaveGetrandom\<rparr>)
                 else Return False w2
             | Abort w2 \<Rightarrow> Abort w2
             | Block w2 \<Rightarrow> Block w2)
          else Return False w1
      | Abort w1 \<Rightarrow> Abort w1
      | Block w1 \<Rightarrow> Block w1)"

text \<open>Lines 131-135: open the device unless a descriptor was requested.\<close>

definition init_open :: "int \<Rightarrow> world \<Rightarrow> int outcome" where
  "init_open fd w =
     (if fd = kUnset then
        (case do_while_EINTR Sys_open w of
           Return r w' \<Rightarrow> Return (rv r) w'
         | Abort w' \<Rightarrow> Abort w'
         | Block w' \<Rightarrow> Block w')
      else Return fd w)"

text \<open>Lines 146-170, compiled only under \<open>BORINGSSL_FIPS\<close>: the \<^verbatim>\<open>for (;;)\<close> loop.\<close>

function init_fips :: "int \<Rightarrow> bool \<Rightarrow> world \<Rightarrow> unit outcome" where
  "init_fips fd first_iteration w =
     (case syscall (Sys_ioctl_RNDGETENTCNT fd) w of
        Return r w1 \<Rightarrow>
          if rv r \<noteq> 0 then Abort (log (Fprintf Msg_RNDGETENTCNT_failed) w1)
          else if kBitsNeeded \<le> rout r then Return () w1
          else init_fips fd False
                 (log (Usleep 250000)
                    (if first_iteration
                     then log (Fprintf (Msg_too_few_bits (rout r) kBitsNeeded)) w1
                     else w1))
      | Abort w1 \<Rightarrow> Abort w1
      | Block w1 \<Rightarrow> Block w1)"
  by pat_completeness auto
termination
  by (relation "measure (\<lambda>(fd, first, w). length (kernel w))")
     (auto simp: syscall_def answered_def log_def split: list.splits)

declare init_fips.simps [simp del]

text \<open>Lines 173-185: mark the descriptor close-on-exec and commit it.\<close>

definition init_cloexec :: "int \<Rightarrow> world \<Rightarrow> unit outcome" where
  "init_cloexec fd w =
     (case syscall (Sys_fcntl_GETFD fd) w of
        Return r w1 \<Rightarrow>
          if rv r = - 1 then
            (if errno w1 \<noteq> ENOSYS then Abort w1
             else Return () (w1\<lparr>urandom_fd := fd\<rparr>))
          else
            (case syscall (Sys_fcntl_SETFD fd (rv r OR FD_CLOEXEC)) w1 of
               Return r2 w2 \<Rightarrow>
                 if rv r2 = - 1 then Abort w2
                 else Return () (w2\<lparr>urandom_fd := fd\<rparr>)
             | Abort w2 \<Rightarrow> Abort w2
             | Block w2 \<Rightarrow> Block w2)
      | Abort w1 \<Rightarrow> Abort w1
      | Block w1 \<Rightarrow> Block w1)"

text \<open>Lines 131-185: everything after the \<open>USE_SYS_getrandom\<close> block.\<close>

definition init_urandom :: "config \<Rightarrow> int \<Rightarrow> world \<Rightarrow> unit outcome" where
  "init_urandom cfg fd w =
     (case init_open fd w of
        Return fd1 w1 \<Rightarrow>
          if fd1 < 0 then Abort w1
          else
            (case (if boringssl_fips cfg then init_fips fd1 True w1 else Return () w1) of
               Return u w2 \<Rightarrow> init_cloexec fd1 w2
             | Abort w2 \<Rightarrow> Abort w2
             | Block w2 \<Rightarrow> Block w2)
      | Abort w1 \<Rightarrow> Abort w1
      | Block w1 \<Rightarrow> Block w1)"

text \<open>Lines 101-186.\<close>

definition init_once :: "config \<Rightarrow> world \<Rightarrow> unit outcome" where
  "init_once cfg w =
     (let fd = urandom_fd_requested (CRYPTO_STATIC_MUTEX_lock_read w);
          w0 = CRYPTO_STATIC_MUTEX_unlock_read (CRYPTO_STATIC_MUTEX_lock_read w)
      in case (if use_sys_getrandom cfg then init_getrandom w0 else Return False w0) of
           Return committed w1 \<Rightarrow>
             if committed then Return () w1 else init_urandom cfg fd w1
         | Abort w1 \<Rightarrow> Abort w1
         | Block w1 \<Rightarrow> Block w1)"

text \<open>
  Lines 188-204, in two halves so that calls of several threads can be interleaved:
  lines 189-196 duplicate and store, lines 198-203 run the initializer and compare.
\<close>

definition RAND_set_urandom_fd_store :: "int \<Rightarrow> world \<Rightarrow> int outcome" where
  "RAND_set_urandom_fd_store fd w =
     (case syscall (Sys_dup fd) w of
        Return r w1 \<Rightarrow>
          if rv r < 0 then Abort w1
          else Return (rv r)
                 (CRYPTO_STATIC_MUTEX_unlock_write
                    ((CRYPTO_STATIC_MUTEX_lock_write w1)\<lparr>urandom_fd_requested := rv r\<rparr>))
      | Abort w1 \<Rightarrow> Abort w1
      | Block w1 \<Rightarrow> Block w1)"

definition RAND_set_urandom_fd_check :: "config \<Rightarrow> int \<Rightarrow> world \<Rightarrow> unit outcome" where
  "RAND_set_urandom_fd_check cfg fd w =
     (case CRYPTO_once (init_once cfg) w of
        Return u w1 \<Rightarrow>
          if urandom_fd w1 = kHaveGetrandom then Return () (log (Close fd) w1)
          else if urandom_fd w1 \<noteq> fd then Abort w1
          else Return () w1
      | Abort w1 \<Rightarrow> Abort w1
      | Block w1 \<Rightarrow> Block w1)"

definition RAND_set_urandom_fd :: "config \<Rightarrow> int \<Rightarrow> world \<Rightarrow> unit outcome" where
  "RAND_set_urandom_fd cfg fd w =
     (case RAND_set_urandom_fd_store fd w of
        Return fd' w1 \<Rightarrow> RAND_set_urandom_fd_check cfg fd' w1
      | Abort w1 \<Rightarrow> Abort w1
      | Block w1 \<Rightarrow> Block w1)"

text \<open>
  Lines 218-241: one round of the selected mechanism. With \<open>kHaveGetrandom\<close> committed in a
  build without \<open>USE_SYS_getrandom\<close> the code is \<open>abort()\<close>. The annotation for the memory
  sanitizer (lines 224-232) does not change the state.
\<close>

definition fill_call :: "config \<Rightarrow> nat \<Rightarrow> nat \<Rightarrow> world \<Rightarrow> reply outcome" where
  "fill_call cfg out len w =
     (if urandom_fd w = kHaveGetrandom then
        (if use_sys_getrandom cfg then do_while_EINTR (Sys_getrandom (Buf out) len 0) w
         else Abort w)
      else do_while_EINTR (Sys_read (urandom_fd w) out len) w)"

text \<open>
  Lines 214-251. \<open>len -= r\<close> is unsigned arithmetic on \<open>size_t\<close>; the result is the \<open>char\<close>
  the function returns.
\<close>

function fill_with_entropy :: "config \<Rightarrow> nat \<Rightarrow> nat \<Rightarrow> world \<Rightarrow> int outcome" where
  "fill_with_entropy cfg out len w =
     (if 0 < len then
        (case fill_call cfg out len w of
           Return r w1 \<Rightarrow>
             if rv r \<le> 0 then Return 0 w1
             else fill_with_entropy cfg (out + nat (rv r))
                    (nat ((int len - rv r) mod 2 ^ size_bits cfg)) w1
         | Abort w1 \<Rightarrow> Abort w1
         | Block w1 \<Rightarrow> Block w1)
      else Return 1 w)"
  by pat_completeness auto
termination
proof (relation "measure (\<lambda>(cfg, out, len, w). length (kernel w))")
  have loop: "do_while_EINTR c w = Return r w' \<Longrightarrow> length (kernel w') < length (kernel w)"
    for c w r w'
  proof (induction c w rule: do_while_EINTR.induct)
    case (1 c w)
    from "1.prems" obtain r1 w1 where sys: "syscall c w = Return r1 w1"
      by (cases "syscall c w") (simp_all add: do_while_EINTR.simps [of c w])
    then have less: "length (kernel w1) < length (kernel w)"
      by (auto simp: syscall_def answered_def split: list.splits)
    show ?case
    proof (cases "rv r1 = - 1 \<and> errno w1 = EINTR")
      case True
      with "1.prems" sys have "do_while_EINTR c w1 = Return r w'"
        by (simp add: do_while_EINTR.simps [of c w])
      with "1.IH" sys True have "length (kernel w') < length (kernel w1)"
        by simp
      with less show ?thesis by simp
    next
      case False
      with "1.prems" sys have "w' = w1"
        by (simp add: do_while_EINTR.simps [of c w])
      with less show ?thesis by simp
    qed
  qed
  fix cfg :: config and out len :: nat and w w1 :: world and r :: reply
  assume "fill_call cfg out len w = Return r w1"
  then have "length (kernel w1) < length (kernel w)"
    by (auto simp: fill_call_def dest: loop split: if_splits)
  then show "((cfg, out + nat (rv r), nat ((int len - rv r) mod 2 ^ size_bits cfg), w1),
              (cfg, out, len, w)) \<in> measure (\<lambda>(cfg, out, len, w). length (kernel w))"
    by simp
qed simp

declare fill_with_entropy.simps [simp del]

text \<open>Lines 254-264.\<close>

definition CRYPTO_sysrand :: "config \<Rightarrow> nat \<Rightarrow> nat \<Rightarrow> world \<Rightarrow> unit outcome" where
  "CRYPTO_sysrand cfg out requested w =
     (if requested = 0 then Return () w
      else (case CRYPTO_once (init_once cfg) w of
              Return u w1 \<Rightarrow>
                (case fill_with_entropy cfg out requested w1 of
                   Return ok w2 \<Rightarrow> if ok = 0 then Abort w2 else Return () w2
                 | Abort w2 \<Rightarrow> Abort w2
                 | Block w2 \<Rightarrow> Block w2)
            | Abort w1 \<Rightarrow> Abort w1
            | Block w1 \<Rightarrow> Block w1))"

section \<open>Scripts, builds and what the trace shows\<close>

text \<open>
  The interrupted failure: the call returned \<open>-1\<close> and left \<open>EINTR\<close> in \<open>errno\<close>.
\<close>

definition is_eintr :: "reply \<Rightarrow> bool" where
  "is_eintr r \<longleftrightarrow> rv r = - 1 \<and> rerrno r = EINTR"

text \<open>
  The world after call \<open>c\<close> has been answered by the interrupted failures \<open>ints\<close>, apart
  from the script: the calls are in the trace, and \<open>errno\<close> is \<open>EINTR\<close> if there was one.
\<close>

definition interrupted :: "sys_call \<Rightarrow> reply list \<Rightarrow> world \<Rightarrow> world" where
  "interrupted c ints w =
     w\<lparr>errno := (if ints = [] then errno w else EINTR),
       trace := trace w @ map (Call c) ints\<rparr>"

text \<open>
  The call that the fill engine issues at cursor \<open>out\<close> for \<open>len\<close> bytes (the test of line
  218), and whether the committed mechanism is one the build has: with \<open>kHaveGetrandom\<close>
  committed in a build without \<open>USE_SYS_getrandom\<close>, line 235 aborts.
\<close>

definition mechanism :: "world \<Rightarrow> nat \<Rightarrow> nat \<Rightarrow> sys_call" where
  "mechanism w out len =
     (if urandom_fd w = kHaveGetrandom then Sys_getrandom (Buf out) len 0
      else Sys_read (urandom_fd w) out len)"

definition selected :: "config \<Rightarrow> world \<Rightarrow> bool" where
  "selected cfg w \<longleftrightarrow> (urandom_fd w = kHaveGetrandom \<longrightarrow> use_sys_getrandom cfg)"

text \<open>
  A script for a request of \<open>len\<close> bytes: interrupted failures, and transfers of \<open>r\<close> bytes
  with \<open>0 < r \<le> remaining\<close> whose data are \<open>r\<close> bytes, until nothing remains. \<open>fill_trace\<close>
  lists the calls the fill engine issues on such a script, each at the cursor and for the
  count that the transfers before it leave; \<open>transferred\<close> is the bytes handed over, in
  order.
\<close>

fun delivers :: "nat \<Rightarrow> reply list \<Rightarrow> bool" where
  "delivers len [] = (len = 0)"
| "delivers len (r # rs) =
     (0 < len \<and>
      (if is_eintr r then delivers len rs
       else 0 < rv r \<and> rv r \<le> int len \<and> length (rdata r) = nat (rv r) \<and>
            delivers (len - nat (rv r)) rs))"

fun fill_trace :: "(nat \<Rightarrow> nat \<Rightarrow> sys_call) \<Rightarrow> nat \<Rightarrow> nat \<Rightarrow> reply list \<Rightarrow> event list" where
  "fill_trace mk out len [] = []"
| "fill_trace mk out len (r # rs) =
     Call (mk out len) r #
     (if is_eintr r then fill_trace mk out len rs
      else fill_trace mk (out + nat (rv r)) (len - nat (rv r)) rs)"

definition transferred :: "reply list \<Rightarrow> byte list" where
  "transferred rs = concat (map rdata (filter (\<lambda>r. \<not> is_eintr r) rs))"

text \<open>
  The regions of memory (start, length) that the kernel wrote for an event, and the number
  of regions of a trace that cover position \<open>p\<close>.
\<close>

fun written :: "event \<Rightarrow> (nat \<times> nat) list" where
  "written (Call (Sys_getrandom (Buf a) n f) r) = (if 0 < rv r then [(a, length (rdata r))] else [])"
| "written (Call (Sys_read fd a n) r) = (if 0 < rv r then [(a, length (rdata r))] else [])"
| "written e = []"

definition times_written :: "event list \<Rightarrow> nat \<Rightarrow> nat" where
  "times_written evs p =
     length (filter (\<lambda>(a, n). a \<le> p \<and> p < a + n) (concat (map written evs)))"

text \<open>
  The process at its start: the initializers of lines 90, 93 and 95, an empty trace, zeroed
  memory, and the script \<open>rs\<close>. A build for a target with 64-bit \<open>size_t\<close>. Replies: a call
  that returns \<open>n\<close>, a call that fails with an \<open>errno\<close>, a transfer of bytes, and a
  successful \<open>RNDGETENTCNT\<close> that reports \<open>n\<close> bits.
\<close>

definition boot :: "reply list \<Rightarrow> world" where
  "boot rs =
     \<lparr>urandom_fd_requested = kUnset, urandom_fd = kUnset, once = False, errno = EOTHER 0,
      mem = (\<lambda>p. 0), kernel = rs, trace = []\<rparr>"

definition build :: "bool \<Rightarrow> bool \<Rightarrow> config" where
  "build getrandom fips = \<lparr>use_sys_getrandom = getrandom, boringssl_fips = fips, size_bits = 64\<rparr>"

definition gives :: "int \<Rightarrow> reply" where
  "gives n = \<lparr>rv = n, rerrno = EOTHER 0, rdata = [], rout = 0\<rparr>"

definition fails :: "errno_val \<Rightarrow> reply" where
  "fails e = \<lparr>rv = - 1, rerrno = e, rdata = [], rout = 0\<rparr>"

definition bytes :: "byte list \<Rightarrow> reply" where
  "bytes bs = \<lparr>rv = int (length bs), rerrno = EOTHER 0, rdata = bs, rout = 0\<rparr>"

definition entropy :: "int \<Rightarrow> reply" where
  "entropy n = \<lparr>rv = 0, rerrno = EOTHER 0, rdata = [], rout = n\<rparr>"

text \<open>
  The file's three static variables.
\<close>

definition statics :: "world \<Rightarrow> int \<times> int \<times> bool" where
  "statics w = (urandom_fd w, urandom_fd_requested w, once w)"

text \<open>
  The events that world \<open>w'\<close> has added to the trace of \<open>w\<close>.
\<close>

definition news :: "world \<Rightarrow> world \<Rightarrow> event list" where
  "news w w' = drop (length (trace w)) (trace w')"

text \<open>
  The replies after which the code aborts: a read or fetch of the fill engine that returns
  \<open>\<le> 0\<close>, or an \<open>open\<close> that returns \<open>< 0\<close>, other than the interrupted failure; a failed
  \<open>RNDGETENTCNT\<close>; \<open>F_GETFD\<close> failing with an \<open>errno\<close> other than \<open>ENOSYS\<close>; a failed
  \<open>F_SETFD\<close>; a failed \<open>dup\<close>. No reply to the fetches into \<open>dummy\<close> is fatal.
\<close>

fun fatal_reply :: "sys_call \<Rightarrow> reply \<Rightarrow> bool" where
  "fatal_reply (Sys_getrandom (Buf a) n f) r = (rv r \<le> 0 \<and> \<not> is_eintr r)"
| "fatal_reply (Sys_read fd a n) r = (rv r \<le> 0 \<and> \<not> is_eintr r)"
| "fatal_reply Sys_open r = (rv r < 0 \<and> \<not> is_eintr r)"
| "fatal_reply (Sys_ioctl_RNDGETENTCNT fd) r = (rv r \<noteq> 0)"
| "fatal_reply (Sys_fcntl_GETFD fd) r = (rv r = - 1 \<and> rerrno r \<noteq> ENOSYS)"
| "fatal_reply (Sys_fcntl_SETFD fd flags) r = (rv r = - 1)"
| "fatal_reply (Sys_dup fd) r = (rv r < 0)"
| "fatal_reply (Sys_getrandom Dummy n f) r = False"

fun fatal_event :: "event \<Rightarrow> bool" where
  "fatal_event (Call c r) = fatal_reply c r"
| "fatal_event e = False"

text \<open>
  \<open>w'\<close> continues the trace of \<open>w\<close> and none of the events added is fatal; an outcome
  survives when it is an abort or its world is clean.
\<close>

definition clean :: "world \<Rightarrow> world \<Rightarrow> bool" where
  "clean w w' \<longleftrightarrow>
     trace w' = trace w @ news w w' \<and> list_all (\<lambda>e. \<not> fatal_event e) (news w w')"

definition survives :: "world \<Rightarrow> 'a outcome \<Rightarrow> bool" where
  "survives w res \<longleftrightarrow> is_Abort res \<or> clean w (world_of res)"

text \<open>
  The fatal replies to the fill engine's calls and to \<open>open\<close>.
\<close>

fun io_failure :: "sys_call \<Rightarrow> reply \<Rightarrow> bool" where
  "io_failure (Sys_getrandom (Buf a) n f) r = (rv r \<le> 0 \<and> \<not> is_eintr r)"
| "io_failure (Sys_read fd a n) r = (rv r \<le> 0 \<and> \<not> is_eintr r)"
| "io_failure Sys_open r = (rv r < 0 \<and> \<not> is_eintr r)"
| "io_failure c r = False"

text \<open>
  What the loop of the compliance build adds to the trace for a run of low counts: the
  query, the diagnostic in the first iteration, and the sleep.
\<close>

fun gate_trace :: "int \<Rightarrow> bool \<Rightarrow> reply list \<Rightarrow> event list" where
  "gate_trace fd first [] = []"
| "gate_trace fd first (b # bs) =
     Call (Sys_ioctl_RNDGETENTCNT fd) b #
     (if first then [Fprintf (Msg_too_few_bits (rout b) kBitsNeeded)] else []) @
     Usleep 250000 # gate_trace fd False bs"

text \<open>
  Counting the queries, the sleeps and the diagnostics of a trace.
\<close>

fun is_poll :: "event \<Rightarrow> bool" where
  "is_poll (Call (Sys_ioctl_RNDGETENTCNT fd) r) = True"
| "is_poll e = False"

fun is_sleep :: "event \<Rightarrow> bool" where
  "is_sleep (Usleep n) = True"
| "is_sleep e = False"

fun is_diagnostic :: "event \<Rightarrow> bool" where
  "is_diagnostic (Fprintf m) = True"
| "is_diagnostic e = False"

definition count :: "(event \<Rightarrow> bool) \<Rightarrow> event list \<Rightarrow> nat" where
  "count P evs = length (filter P evs)"

text \<open>
  Two worlds that differ in the trace and in \<open>errno\<close> at most, and two outcomes that end the
  same way, with the same result, in such worlds.
\<close>

definition alike :: "world \<Rightarrow> world \<Rightarrow> bool" where
  "alike v w \<longleftrightarrow>
     urandom_fd v = urandom_fd w \<and> urandom_fd_requested v = urandom_fd_requested w \<and>
     once v = once w \<and> mem v = mem w \<and> kernel v = kernel w"

fun same_outcome :: "'a outcome \<Rightarrow> 'a outcome \<Rightarrow> bool" where
  "same_outcome (Return a v) (Return b w) = (a = b \<and> alike v w)"
| "same_outcome (Abort v) (Abort w) = alike v w"
| "same_outcome (Block v) (Block w) = alike v w"
| "same_outcome x y = False"

text \<open>
  Threads. \<open>CRYPTO_once(&once, init_once)\<close> as one thread executes it, a system call at a
  time, so that other threads can run in between. The program counter names the next thing
  the thread does and carries the local \<open>fd\<close> (and \<open>first_iteration\<close>, and the flags for
  \<open>F_SETFD\<close>): \<open>At_once\<close> the test of the guard, \<open>At_read\<close> lines 102-104, \<open>At_probe\<close> the
  call of lines 108-109, \<open>At_fetch\<close> the call of lines 120-121, \<open>At_open\<close> line 133,
  \<open>At_fips\<close> line 149, \<open>At_getfd\<close> line 173, \<open>At_setfd\<close> line 181, \<open>At_return\<close> line 186
  where \<open>init_once\<close> has returned, and \<open>Finished\<close> once the guard is marked done.
\<close>

datatype pc =
    At_once
  | At_read
  | At_probe int
  | At_fetch int
  | At_open
  | At_fips int bool
  | At_getfd int
  | At_setfd int int
  | At_return
  | Finished

text \<open>Lines 137-139, and on to the first call after them.\<close>

definition checked :: "config \<Rightarrow> int \<Rightarrow> world \<Rightarrow> pc outcome" where
  "checked cfg fd w =
     (if fd < 0 then Abort w
      else Return (if boringssl_fips cfg then At_fips fd True else At_getfd fd) w)"

text \<open>Line 131.\<close>

definition unset_test :: "config \<Rightarrow> int \<Rightarrow> world \<Rightarrow> pc outcome" where
  "unset_test cfg fd w = (if fd = kUnset then Return At_open w else checked cfg fd w)"

text \<open>
  One step of \<open>init_once\<close>: lines 102-104, or one system call together with the tests of
  its result and of \<open>errno\<close>, which belongs to the thread, and the assignment to
  \<open>urandom_fd\<close> where the function returns after it (lines 112, 125 and 185).
\<close>

fun init_once_step :: "config \<Rightarrow> pc \<Rightarrow> world \<Rightarrow> pc outcome" where
  "init_once_step cfg At_read w =
     (let fd = urandom_fd_requested (CRYPTO_STATIC_MUTEX_lock_read w);
          w0 = CRYPTO_STATIC_MUTEX_unlock_read (CRYPTO_STATIC_MUTEX_lock_read w)
      in if use_sys_getrandom cfg then Return (At_probe fd) w0 else unset_test cfg fd w0)"
| "init_once_step cfg (At_probe fd) w =
     (case syscall (Sys_getrandom Dummy 1 GRND_NONBLOCK) w of
        Return r w1 \<Rightarrow>
          if rv r = 1 then Return At_return (w1\<lparr>urandom_fd := kHaveGetrandom\<rparr>)
          else if rv r = - 1 \<and> errno w1 = EAGAIN
            then Return (At_fetch fd) (log (Fprintf Msg_pool_not_initialized) w1)
          else unset_test cfg fd w1
      | Abort w1 \<Rightarrow> Abort w1
      | Block w1 \<Rightarrow> Block w1)"
| "init_once_step cfg (At_fetch fd) w =
     (case syscall (Sys_getrandom Dummy 1 0) w of
        Return r w1 \<Rightarrow>
          if rv r = - 1 \<and> errno w1 = EINTR then Return (At_fetch fd) w1
          else if rv r = 1 then Return At_return (w1\<lparr>urandom_fd := kHaveGetrandom\<rparr>)
          else unset_test cfg fd w1
      | Abort w1 \<Rightarrow> Abort w1
      | Block w1 \<Rightarrow> Block w1)"
| "init_once_step cfg At_open w =
     (case syscall Sys_open w of
        Return r w1 \<Rightarrow>
          if rv r = - 1 \<and> errno w1 = EINTR then Return At_open w1
          else checked cfg (rv r) w1
      | Abort w1 \<Rightarrow> Abort w1
      | Block w1 \<Rightarrow> Block w1)"
| "init_once_step cfg (At_fips fd first_iteration) w =
     (case syscall (Sys_ioctl_RNDGETENTCNT fd) w of
        Return r w1 \<Rightarrow>
          if rv r \<noteq> 0 then Abort (log (Fprintf Msg_RNDGETENTCNT_failed) w1)
          else if kBitsNeeded \<le> rout r then Return (At_getfd fd) w1
          else Return (At_fips fd False)
                 (log (Usleep 250000)
                    (if first_iteration
                     then log (Fprintf (Msg_too_few_bits (rout r) kBitsNeeded)) w1
                     else w1))
      | Abort w1 \<Rightarrow> Abort w1
      | Block w1 \<Rightarrow> Block w1)"
| "init_once_step cfg (At_getfd fd) w =
     (case syscall (Sys_fcntl_GETFD fd) w of
        Return r w1 \<Rightarrow>
          if rv r = - 1 then
            (if errno w1 \<noteq> ENOSYS then Abort w1
             else Return At_return (w1\<lparr>urandom_fd := fd\<rparr>))
          else Return (At_setfd fd (rv r OR FD_CLOEXEC)) w1
      | Abort w1 \<Rightarrow> Abort w1
      | Block w1 \<Rightarrow> Block w1)"
| "init_once_step cfg (At_setfd fd flags) w =
     (case syscall (Sys_fcntl_SETFD fd flags) w of
        Return r w1 \<Rightarrow>
          if rv r = - 1 then Abort w1
          else Return At_return (w1\<lparr>urandom_fd := fd\<rparr>)
      | Abort w1 \<Rightarrow> Abort w1
      | Block w1 \<Rightarrow> Block w1)"
| "init_once_step cfg pc w = Return pc w"

text \<open>
  Modelled from the spec: \<open>CRYPTO_once\<close> lives in the library's thread support, outside this
  file. The spec's one-time-execution guard, a step at a time: the thread that finds the
  guard not done runs the initializer, and the guard is marked done when the initializer
  has returned.
\<close>

fun CRYPTO_once_step :: "(pc \<Rightarrow> world \<Rightarrow> pc outcome) \<Rightarrow> pc \<Rightarrow> world \<Rightarrow> pc outcome" where
  "CRYPTO_once_step init_step At_once w =
     (if once w then Return Finished w else Return At_read w)"
| "CRYPTO_once_step init_step At_return w = Return Finished (w\<lparr>once := True\<rparr>)"
| "CRYPTO_once_step init_step Finished w = Return Finished w"
| "CRYPTO_once_step init_step pc w = init_step pc w"




text \<open>
  What the threads do, in the order they do it: \<open>Init\<close> is one step of the thread that is
  inside \<open>CRYPTO_once\<close>; \<open>Store fd\<close> is a thread calling \<open>RAND_set_urandom_fd(fd)\<close> and running
  lines 189-196, which touch no variable of the file but \<open>urandom_fd_requested\<close>. The state
  is the program counter of the first thread and the duplicates the other threads hold, in
  the order they were stored. A thread that reaches line 198 waits for \<open>CRYPTO_once\<close> to be
  \<open>Finished\<close>.
\<close>

datatype action = Init | Store int

fun run :: "config \<Rightarrow> action list \<Rightarrow> pc \<times> int list \<Rightarrow> world \<Rightarrow> (pc \<times> int list) outcome" where
  "run cfg [] st w = Return st w"
| "run cfg (Init # acts) (pc, ds) w =
     (case CRYPTO_once_step (init_once_step cfg) pc w of
        Return pc' w' \<Rightarrow> run cfg acts (pc', ds) w'
      | Abort w' \<Rightarrow> Abort w'
      | Block w' \<Rightarrow> Block w')"
| "run cfg (Store fd # acts) (pc, ds) w =
     (case RAND_set_urandom_fd_store fd w of
        Return d w' \<Rightarrow> run cfg acts (pc, ds @ [d]) w'
      | Abort w' \<Rightarrow> Abort w'
      | Block w' \<Rightarrow> Block w')"




fun opened :: "event list \<Rightarrow> int list" where
  "opened [] = []"
| "opened (Call Sys_open r # evs) = rv r # opened evs"
| "opened (e # evs) = opened evs"

section \<open>How the loops consume the script\<close>

subsection \<open>Calls and the retry loop\<close>

lemma syscall_Nil: "kernel w = [] \<Longrightarrow> syscall c w = Block w"
  by (simp add: syscall_def)

lemma syscall_Cons:
  "kernel w = r # rs \<Longrightarrow> syscall c w = Return r (answered c r (w\<lparr>kernel := rs\<rparr>))"
  by (simp add: syscall_def)

lemma answered_fields [simp]:
  "urandom_fd (answered c r w) = urandom_fd w"
  "urandom_fd_requested (answered c r w) = urandom_fd_requested w"
  "once (answered c r w) = once w"
  "kernel (answered c r w) = kernel w"
  "trace (answered c r w) = trace w @ [Call c r]"
  "mem (answered c r w) = kernel_writes c r (mem w)"
  "errno (answered c r w) = (if rv r = - 1 then rerrno r else errno w)"
  by (simp_all add: answered_def)

lemma log_fields [simp]:
  "urandom_fd (log e w) = urandom_fd w"
  "urandom_fd_requested (log e w) = urandom_fd_requested w"
  "once (log e w) = once w"
  "kernel (log e w) = kernel w"
  "trace (log e w) = trace w @ [e]"
  "mem (log e w) = mem w"
  "errno (log e w) = errno w"
  by (simp_all add: log_def)

lemma kernel_writes_failed [simp]: "rv r \<le> 0 \<Longrightarrow> kernel_writes c r m = m"
  by (cases "(c, r, m)" rule: kernel_writes.cases) simp_all

lemma do_while_EINTR_Nil: "kernel w = [] \<Longrightarrow> do_while_EINTR c w = Block w"
  by (simp add: do_while_EINTR.simps [of c w] syscall_Nil)

lemma do_while_EINTR_retry:
  "kernel w = r # rs \<Longrightarrow> is_eintr r \<Longrightarrow>
   do_while_EINTR c w = do_while_EINTR c (answered c r (w\<lparr>kernel := rs\<rparr>))"
  by (simp add: do_while_EINTR.simps [of c w] syscall_Cons is_eintr_def)

lemma do_while_EINTR_done:
  "kernel w = r # rs \<Longrightarrow> \<not> is_eintr r \<Longrightarrow>
   do_while_EINTR c w = Return r (answered c r (w\<lparr>kernel := rs\<rparr>))"
  by (auto simp add: do_while_EINTR.simps [of c w] syscall_Cons is_eintr_def)

lemma do_while_EINTR_interrupted:
  "\<forall>r\<in>set ints. is_eintr r \<Longrightarrow> kernel w = ints @ rs \<Longrightarrow>
   do_while_EINTR c w = do_while_EINTR c ((interrupted c ints w)\<lparr>kernel := rs\<rparr>)"
proof (induction ints arbitrary: w)
  case Nil
  then have "(interrupted c [] w)\<lparr>kernel := rs\<rparr> = w"
    by (simp add: interrupted_def)
  then show ?case by simp
next
  case (Cons r ints)
  let ?w1 = "answered c r (w\<lparr>kernel := ints @ rs\<rparr>)"
  from Cons.prems have "do_while_EINTR c w = do_while_EINTR c ?w1"
    by (simp add: do_while_EINTR_retry)
  also from Cons.prems have "\<dots> = do_while_EINTR c ((interrupted c ints ?w1)\<lparr>kernel := rs\<rparr>)"
    by (intro Cons.IH) simp_all
  also from Cons.prems have "(interrupted c ints ?w1)\<lparr>kernel := rs\<rparr> = (interrupted c (r # ints) w)\<lparr>kernel := rs\<rparr>"
    by (auto simp: interrupted_def answered_def is_eintr_def)
  finally show ?case .
qed

subsection \<open>The fill engine on a script that delivers\<close>

lemma mechanism_answered [simp]: "mechanism (answered c r w) = mechanism w"
  by (simp add: mechanism_def fun_eq_iff)

lemma mechanism_kernel [simp]: "mechanism (w\<lparr>kernel := rs\<rparr>) = mechanism w"
  by (simp add: mechanism_def fun_eq_iff)

lemma selected_answered [simp]: "selected cfg (answered c r w) = selected cfg w"
  by (simp add: selected_def)

lemma selected_kernel [simp]: "selected cfg (w\<lparr>kernel := rs\<rparr>) = selected cfg w"
  by (simp add: selected_def)

lemma fill_call_selected:
  "selected cfg w \<Longrightarrow> fill_call cfg out len w = do_while_EINTR (mechanism w out len) w"
  by (simp add: fill_call_def mechanism_def selected_def)

lemma fill_with_entropy_zero: "fill_with_entropy cfg out 0 w = Return 1 w"
  by (simp add: fill_with_entropy.simps [of cfg out 0 w])

lemma fill_with_entropy_retry:
  assumes "0 < len" and "kernel w = r # rs" and "is_eintr r" and "selected cfg w"
  shows "fill_with_entropy cfg out len w =
         fill_with_entropy cfg out len (answered (mechanism w out len) r (w\<lparr>kernel := rs\<rparr>))"
proof -
  let ?w1 = "answered (mechanism w out len) r (w\<lparr>kernel := rs\<rparr>)"
  from assms have "fill_call cfg out len w = fill_call cfg out len ?w1"
    by (simp add: fill_call_selected do_while_EINTR_retry)
  with \<open>0 < len\<close> show ?thesis
    by (simp add: fill_with_entropy.simps [of cfg out len w]
        fill_with_entropy.simps [of cfg out len ?w1])
qed

lemma fill_with_entropy_transfer:
  assumes "0 < len" and "kernel w = r # rs" and "\<not> is_eintr r" and "selected cfg w"
    and "0 < rv r" and "rv r \<le> int len" and "len < 2 ^ size_bits cfg"
  shows "fill_with_entropy cfg out len w =
         fill_with_entropy cfg (out + nat (rv r)) (len - nat (rv r))
           (answered (mechanism w out len) r (w\<lparr>kernel := rs\<rparr>))"
proof -
  from assms have call: "fill_call cfg out len w =
      Return r (answered (mechanism w out len) r (w\<lparr>kernel := rs\<rparr>))"
    by (simp add: fill_call_selected do_while_EINTR_done)
  from \<open>len < 2 ^ size_bits cfg\<close> have "int len < 2 ^ size_bits cfg"
    by (metis of_nat_less_iff of_nat_numeral of_nat_power)
  with \<open>0 < rv r\<close> \<open>rv r \<le> int len\<close>
  have "int len - rv r < 2 ^ size_bits cfg" and "0 \<le> int len - rv r"
    by linarith+
  then have "(int len - rv r) mod 2 ^ size_bits cfg = int len - rv r"
    by simp
  then have "nat ((int len - rv r) mod 2 ^ size_bits cfg) = len - nat (rv r)"
    using assms by simp
  with assms call show ?thesis
    by (simp add: fill_with_entropy.simps [of cfg out len w])
qed

lemma fill_with_entropy_fatal:
  assumes "0 < len" and "kernel w = r # rs" and "\<not> is_eintr r" and "selected cfg w"
    and "rv r \<le> 0"
  shows "fill_with_entropy cfg out len w =
         Return 0 (answered (mechanism w out len) r (w\<lparr>kernel := rs\<rparr>))"
  using assms
  by (simp add: fill_with_entropy.simps [of cfg out len w] fill_call_selected do_while_EINTR_done)

lemma store_append: "store (store m a xs) (a + length xs) ys = store m a (xs @ ys)"
  by (auto simp: store_def fun_eq_iff nth_append)

lemma store_Nil [simp]: "store m a [] = m"
  by (auto simp: store_def fun_eq_iff)

lemma written_mechanism [simp]:
  "written (Call (mechanism w a n) r) = (if 0 < rv r then [(a, length (rdata r))] else [])"
  by (simp add: mechanism_def)

lemma kernel_writes_mechanism [simp]:
  "kernel_writes (mechanism w a n) r m = (if 0 < rv r then store m a (rdata r) else m)"
  by (simp add: mechanism_def)

lemma times_written_Cons:
  "times_written (e # evs) p = times_written [e] p + times_written evs p"
  by (simp add: times_written_def)

lemma times_written_delivers:
  "delivers len rs \<Longrightarrow>
   times_written (fill_trace (mechanism w) out len rs) p = (if out \<le> p \<and> p < out + len then 1 else 0)"
proof (induction rs arbitrary: out len)
  case Nil
  then show ?case by (simp add: times_written_def)
next
  case (Cons r rs)
  show ?case
  proof (cases "is_eintr r")
    case True
    with Cons.prems have "delivers len rs" by simp
    from Cons.IH [OF this, of out] True show ?thesis
      by (simp add: times_written_Cons [of _ "fill_trace _ _ _ _"])
         (simp add: times_written_def is_eintr_def)
  next
    case False
    with Cons.prems have r: "0 < rv r" "rv r \<le> int len" "length (rdata r) = nat (rv r)"
      and rest: "delivers (len - nat (rv r)) rs"
      by simp_all
    from Cons.IH [OF rest, of "out + nat (rv r)"] False r show ?thesis
      by (simp add: times_written_Cons [of _ "fill_trace _ _ _ _"])
         (auto simp add: times_written_def)
  qed
qed

lemma length_transferred: "delivers len rs \<Longrightarrow> length (transferred rs) = len"
proof (induction rs arbitrary: len)
  case Nil
  then show ?case by (simp add: transferred_def)
next
  case (Cons r rs)
  then show ?case
    by (cases "is_eintr r") (auto simp: transferred_def)
qed

lemma fill_with_entropy_delivers:
  assumes "delivers len rs" and "kernel w = rs @ rest" and "len < 2 ^ size_bits cfg"
    and "selected cfg w"
  shows "\<exists>w'. fill_with_entropy cfg out len w = Return 1 w' \<and> kernel w' = rest \<and>
           trace w' = trace w @ fill_trace (mechanism w) out len rs \<and>
           mem w' = store (mem w) out (transferred rs)"
  using assms
proof (induction rs arbitrary: out len w)
  case Nil
  then show ?case
    by (simp add: fill_with_entropy_zero transferred_def)
next
  case (Cons r rs)
  let ?w1 = "answered (mechanism w out len) r (w\<lparr>kernel := rs @ rest\<rparr>)"
  from Cons.prems have len: "0 < len" and k: "kernel w = r # (rs @ rest)"
    by simp_all
  show ?case
  proof (cases "is_eintr r")
    case True
    with Cons.prems have "delivers len rs" by simp
    then obtain w' where w': "fill_with_entropy cfg out len ?w1 = Return 1 w'"
      "kernel w' = rest" "trace w' = trace ?w1 @ fill_trace (mechanism ?w1) out len rs"
      "mem w' = store (mem ?w1) out (transferred rs)"
      using Cons.IH [of len ?w1 out] Cons.prems by auto
    from len k True Cons.prems have "fill_with_entropy cfg out len w = fill_with_entropy cfg out len ?w1"
      by (intro fill_with_entropy_retry) simp_all
    with w' True show ?thesis
      by (simp add: transferred_def is_eintr_def)
  next
    case False
    with Cons.prems have r: "0 < rv r" "rv r \<le> int len" "length (rdata r) = nat (rv r)"
      and rest: "delivers (len - nat (rv r)) rs"
      by simp_all
    from Cons.prems have "len - nat (rv r) < 2 ^ size_bits cfg"
      by simp
    then obtain w' where w': "fill_with_entropy cfg (out + nat (rv r)) (len - nat (rv r)) ?w1 = Return 1 w'"
      "kernel w' = rest"
      "trace w' = trace ?w1 @ fill_trace (mechanism ?w1) (out + nat (rv r)) (len - nat (rv r)) rs"
      "mem w' = store (mem ?w1) (out + nat (rv r)) (transferred rs)"
      using Cons.IH [OF rest, of ?w1 "out + nat (rv r)"] Cons.prems by auto
    from len k False r Cons.prems
    have "fill_with_entropy cfg out len w =
        fill_with_entropy cfg (out + nat (rv r)) (len - nat (rv r)) ?w1"
      by (intro fill_with_entropy_transfer) simp_all
    moreover have "store (store (mem w) out (rdata r)) (out + nat (rv r)) (transferred rs) =
        store (mem w) out (rdata r @ transferred rs)"
      using store_append [of "mem w" out "rdata r" "transferred rs"] r by simp
    ultimately show ?thesis
      using w' False r by (simp add: transferred_def)
  qed
qed

lemma delivers_replicate: "delivers n (replicate n (bytes [b]))"
  by (induction n) (simp_all add: bytes_def is_eintr_def)

text \<open>
  Claim C1. Let the requested length fit \<open>size_t\<close> and let the committed mechanism be one
  the build has. (1) When the fill engine's call hands over \<open>r\<close> bytes with
  \<open>0 < r \<le> remaining\<close>, the loop goes on with the cursor advanced by exactly \<open>r\<close> and the
  count reduced by exactly \<open>r\<close>. (2) Take any script that answers the calls with
  interruptions and with such transfers adding up to the requested length (\<open>delivers\<close>).
  Then \<open>fill_with_entropy\<close> returns 1 having consumed exactly that script. Each call was
  issued at the cursor advanced by the bytes transferred so far and for the count still
  remaining (\<open>fill_trace\<close>), the buffer holds the transferred bytes in order, they are \<open>len\<close>
  bytes, and every position of the buffer was written exactly once and no position outside
  it was written. The witness is a mechanism that hands over one byte per call for a
  request of 4096 bytes.
\<close>

theorem fill_with_entropy_partial_transfers:
  assumes "len < 2 ^ size_bits cfg" and "selected cfg w"
  shows "(kernel w = r # later \<and> 0 < rv r \<and> rv r \<le> int len \<longrightarrow>
            fill_with_entropy cfg out len w =
              fill_with_entropy cfg (out + nat (rv r)) (len - nat (rv r))
                (answered (mechanism w out len) r (w\<lparr>kernel := later\<rparr>))) \<and>
         (delivers len rs \<and> kernel w = rs @ rest \<longrightarrow>
            (\<exists>w'. fill_with_entropy cfg out len w = Return 1 w' \<and> kernel w' = rest \<and>
               trace w' = trace w @ fill_trace (mechanism w) out len rs \<and>
               mem w' = store (mem w) out (transferred rs) \<and>
               length (transferred rs) = len \<and>
               (\<forall>p. times_written (fill_trace (mechanism w) out len rs) p =
                    (if out \<le> p \<and> p < out + len then 1 else 0))))"
proof (intro conjI impI)
  assume a: "kernel w = r # later \<and> 0 < rv r \<and> rv r \<le> int len"
  then have "\<not> is_eintr r" and "0 < len"
    by (auto simp: is_eintr_def)
  with a assms show "fill_with_entropy cfg out len w =
      fill_with_entropy cfg (out + nat (rv r)) (len - nat (rv r))
        (answered (mechanism w out len) r (w\<lparr>kernel := later\<rparr>))"
    by (intro fill_with_entropy_transfer) simp_all
next
  assume a: "delivers len rs \<and> kernel w = rs @ rest"
  with assms obtain w' where "fill_with_entropy cfg out len w = Return 1 w'"
    and "kernel w' = rest" and "trace w' = trace w @ fill_trace (mechanism w) out len rs"
    and "mem w' = store (mem w) out (transferred rs)"
    using fill_with_entropy_delivers by blast
  moreover from a have "length (transferred rs) = len"
    by (simp add: length_transferred)
  moreover
  have "times_written (fill_trace (mechanism w) out len rs) p =
        (if out \<le> p \<and> p < out + len then 1 else 0)" for p
    using a by (intro times_written_delivers) simp
  ultimately show "\<exists>w'. fill_with_entropy cfg out len w = Return 1 w' \<and> kernel w' = rest \<and>
      trace w' = trace w @ fill_trace (mechanism w) out len rs \<and>
      mem w' = store (mem w) out (transferred rs) \<and>
      length (transferred rs) = len \<and>
      (\<forall>p. times_written (fill_trace (mechanism w) out len rs) p =
           (if out \<le> p \<and> p < out + len then 1 else 0))"
    by blast
qed

theorem fill_with_entropy_partial_transfers_witness:
  "delivers 4096 (replicate 4096 (bytes [7])) \<and>
   selected (build True False) ((boot (replicate 4096 (bytes [7])))\<lparr>urandom_fd := kHaveGetrandom\<rparr>) \<and>
   (\<exists>w'. fill_with_entropy (build True False) 0 4096
            ((boot (replicate 4096 (bytes [7])))\<lparr>urandom_fd := kHaveGetrandom\<rparr>) = Return 1 w' \<and>
         kernel w' = [] \<and> length (transferred (replicate 4096 (bytes [7]))) = 4096 \<and>
         (\<forall>p. times_written (fill_trace (\<lambda>a n. Sys_getrandom (Buf a) n 0) 0 4096
                  (replicate 4096 (bytes [7]))) p = (if p < 4096 then 1 else 0))) \<and>
   fill_with_entropy (build False False) 10 5 ((boot [bytes [1, 2], bytes [3, 4, 5]])\<lparr>urandom_fd := 3\<rparr>) =
     fill_with_entropy (build False False) 12 3
       ((boot [bytes [3, 4, 5]])\<lparr>urandom_fd := 3, mem := store (\<lambda>p. 0) 10 [1, 2],
          trace := [Call (Sys_read 3 10 5) (bytes [1, 2])]\<rparr>)"
proof -
  let ?rs = "replicate 4096 (bytes [7])"
  let ?w = "(boot ?rs)\<lparr>urandom_fd := kHaveGetrandom\<rparr>"
  have d: "delivers 4096 ?rs \<and> kernel ?w = ?rs @ []"
    by (simp add: delivers_replicate boot_def)
  have s: "selected (build True False) ?w"
    by (simp add: selected_def build_def)
  have n: "(4096::nat) < 2 ^ size_bits (build True False)"
    by (simp add: build_def)
  have m: "mechanism ?w = (\<lambda>a n. Sys_getrandom (Buf a) n 0)"
    by (simp add: mechanism_def fun_eq_iff)
  from fill_with_entropy_partial_transfers [OF n s, where rs = ?rs and rest = "[]" and out = 0] d
  have "\<exists>w'. fill_with_entropy (build True False) 0 4096 ?w = Return 1 w' \<and> kernel w' = [] \<and>
      trace w' = trace ?w @ fill_trace (mechanism ?w) 0 4096 ?rs \<and>
      mem w' = store (mem ?w) 0 (transferred ?rs) \<and>
      length (transferred ?rs) = 4096 \<and>
      (\<forall>p. times_written (fill_trace (mechanism ?w) 0 4096 ?rs) p =
           (if 0 \<le> p \<and> p < 0 + 4096 then 1 else 0))"
    by blast
  then obtain w' where "fill_with_entropy (build True False) 0 4096 ?w = Return 1 w'"
    and "kernel w' = []" and "length (transferred ?rs) = 4096"
    and "\<forall>p. times_written (fill_trace (\<lambda>a n. Sys_getrandom (Buf a) n 0) 0 4096 ?rs) p =
             (if p < 4096 then 1 else 0)"
    unfolding m by auto
  with d s have whole: "delivers 4096 ?rs \<and> selected (build True False) ?w \<and>
      (\<exists>w'. fill_with_entropy (build True False) 0 4096 ?w = Return 1 w' \<and>
         kernel w' = [] \<and> length (transferred ?rs) = 4096 \<and>
         (\<forall>p. times_written (fill_trace (\<lambda>a n. Sys_getrandom (Buf a) n 0) 0 4096 ?rs) p =
              (if p < 4096 then 1 else 0)))"
    by blast
  let ?v = "(boot [bytes [1, 2], bytes [3, 4, 5]])\<lparr>urandom_fd := 3\<rparr>"
  have "(5::nat) < 2 ^ size_bits (build False False)" and "selected (build False False) ?v"
    and "kernel ?v = bytes [1, 2] # [bytes [3, 4, 5]] \<and> 0 < rv (bytes [1, 2]) \<and>
      rv (bytes [1, 2]) \<le> int 5"
    by (simp_all add: build_def selected_def boot_def bytes_def kHaveGetrandom_def)
  with fill_with_entropy_partial_transfers [where cfg = "build False False" and len = 5 and w = ?v
      and r = "bytes [1, 2]" and later = "[bytes [3, 4, 5]]" and out = 10]
  have "fill_with_entropy (build False False) 10 5 ?v =
      fill_with_entropy (build False False) (10 + nat (rv (bytes [1, 2]))) (5 - nat (rv (bytes [1, 2])))
        (answered (mechanism ?v 10 5) (bytes [1, 2]) (?v\<lparr>kernel := [bytes [3, 4, 5]]\<rparr>))"
    by blast
  then have "fill_with_entropy (build False False) 10 5 ?v =
     fill_with_entropy (build False False) 12 3
       ((boot [bytes [3, 4, 5]])\<lparr>urandom_fd := 3, mem := store (\<lambda>p. 0) 10 [1, 2],
          trace := [Call (Sys_read 3 10 5) (bytes [1, 2])]\<rparr>)"
    by (simp add: answered_def mechanism_def boot_def bytes_def kHaveGetrandom_def)
  with whole show ?thesis by blast
qed

subsection \<open>A request of length zero\<close>

text \<open>
  Claim C3. A request of length 0 returns at once and leaves the whole world as it was: the
  heap, the \<open>once\<close> flag, \<open>urandom_fd\<close>, \<open>urandom_fd_requested\<close>, the kernel's script (no call
  was issued) and the trace (not even the locks of \<open>init_once\<close> were taken).
\<close>

theorem CRYPTO_sysrand_zero: "CRYPTO_sysrand cfg out 0 w = Return () w"
  by (simp add: CRYPTO_sysrand_def)

subsection \<open>What the initializer commits\<close>

lemma statics_simps [simp]:
  "statics (answered c r w) = statics w"
  "statics (log e w) = statics w"
  "statics (w\<lparr>kernel := rs\<rparr>) = statics w"
  by (simp_all add: statics_def)

lemma syscall_statics: "statics (world_of (syscall c w)) = statics w"
  by (simp add: syscall_def split: list.splits)

lemma do_while_EINTR_statics: "statics (world_of (do_while_EINTR c w)) = statics w"
proof (induction c w rule: do_while_EINTR.induct)
  case (1 c w)
  show ?case
  proof (cases "kernel w")
    case Nil
    then show ?thesis by (simp add: do_while_EINTR_Nil)
  next
    case (Cons r rs)
    then have sys: "syscall c w = Return r (answered c r (w\<lparr>kernel := rs\<rparr>))"
      by (rule syscall_Cons)
    show ?thesis
    proof (cases "is_eintr r")
      case True
      with "1.IH" [OF sys] show ?thesis
        by (simp add: do_while_EINTR_retry [OF Cons True] is_eintr_def)
    next
      case False
      then show ?thesis
        by (simp add: do_while_EINTR_done [OF Cons False])
    qed
  qed
qed

lemma do_while_EINTR_urandom_fd:
  "do_while_EINTR c w = Return r w' \<Longrightarrow> urandom_fd w' = urandom_fd w"
  using do_while_EINTR_statics [of c w] by (simp add: statics_def)

lemma init_getrandom_Return:
  "init_getrandom w = Return b w' \<Longrightarrow>
   (if b then urandom_fd w' = kHaveGetrandom else urandom_fd w' = urandom_fd w)"
  by (auto simp: init_getrandom_def syscall_def dest!: do_while_EINTR_urandom_fd
      split: outcome.splits if_splits list.splits)

lemma init_cloexec_Return: "init_cloexec fd w = Return u w' \<Longrightarrow> urandom_fd w' = fd"
  by (auto simp: init_cloexec_def syscall_def split: outcome.splits if_splits list.splits)

lemma init_urandom_Return: "init_urandom cfg fd w = Return u w' \<Longrightarrow> 0 \<le> urandom_fd w'"
  by (auto simp: init_urandom_def dest!: init_cloexec_Return split: outcome.splits if_splits)

text \<open>
  Claim C10. Whenever \<open>init_once\<close> returns, \<open>urandom_fd\<close> is \<open>kHaveGetrandom\<close>, which is
  \<open>-3\<close>, or a non-negative descriptor, and it is not \<open>kUnset\<close>, which is \<open>-2\<close>. So the test
  \<open>urandom_fd == kHaveGetrandom\<close> of the fill engine tells the two mechanisms apart, and
  \<open>kHaveGetrandom\<close> is committed only in a build that has \<open>getrandom\<close>.
\<close>

theorem init_once_commits:
  "init_once cfg w = Return u w' \<Longrightarrow>
   (urandom_fd w' = kHaveGetrandom \<or> 0 \<le> urandom_fd w') \<and> urandom_fd w' \<noteq> kUnset \<and>
   kHaveGetrandom = - 3 \<and> kUnset = - 2 \<and> selected cfg w'"
  by (auto simp: init_once_def Let_def kUnset_def kHaveGetrandom_def selected_def
      dest!: init_urandom_Return init_getrandom_Return split: outcome.splits if_splits)

theorem init_once_commits_witness:
  "init_once (build False False) (boot [gives 3, gives 0, gives 0]) =
     Return () ((boot [])\<lparr>urandom_fd := 3,
        trace := [Lock_read, Unlock_read, Call Sys_open (gives 3),
                  Call (Sys_fcntl_GETFD 3) (gives 0), Call (Sys_fcntl_SETFD 3 1) (gives 0)]\<rparr>) \<and>
   (urandom_fd ((boot [])\<lparr>urandom_fd := 3,
        trace := [Lock_read, Unlock_read, Call Sys_open (gives 3),
                  Call (Sys_fcntl_GETFD 3) (gives 0), Call (Sys_fcntl_SETFD 3 1) (gives 0)]\<rparr>) = kHaveGetrandom \<or>
    0 \<le> urandom_fd ((boot [])\<lparr>urandom_fd := 3,
        trace := [Lock_read, Unlock_read, Call Sys_open (gives 3),
                  Call (Sys_fcntl_GETFD 3) (gives 0), Call (Sys_fcntl_SETFD 3 1) (gives 0)]\<rparr>))"
proof -
  have run: "init_once (build False False) (boot [gives 3, gives 0, gives 0]) =
     Return () ((boot [])\<lparr>urandom_fd := 3,
        trace := [Lock_read, Unlock_read, Call Sys_open (gives 3),
                  Call (Sys_fcntl_GETFD 3) (gives 0), Call (Sys_fcntl_SETFD 3 1) (gives 0)]\<rparr>)"
    by (simp add: init_once_def init_urandom_def init_open_def init_cloexec_def
        do_while_EINTR.simps syscall_def answered_def log_def boot_def build_def gives_def
        kUnset_def FD_CLOEXEC_def)
  from init_once_commits [OF run] run show ?thesis
    by simp
qed

subsection \<open>The blocking fetch after \<open>EAGAIN\<close>\<close>

lemma do_while_EINTR_script:
  assumes "\<forall>r\<in>set ints. is_eintr r" and "\<not> is_eintr r0" and "kernel w = ints @ r0 # rest"
  shows "do_while_EINTR c w =
         Return r0 (answered c r0 ((interrupted c ints w)\<lparr>kernel := rest\<rparr>))"
proof -
  from assms have "do_while_EINTR c w = do_while_EINTR c ((interrupted c ints w)\<lparr>kernel := r0 # rest\<rparr>)"
    by (intro do_while_EINTR_interrupted) simp_all
  also from assms(2) have "\<dots> = Return r0 (answered c r0 ((interrupted c ints w)\<lparr>kernel := rest\<rparr>))"
    by (simp add: do_while_EINTR_done)
  finally show ?thesis .
qed

text \<open>
  Claim C5, as amended. In a build with \<open>USE_SYS_getrandom\<close>, let the non-blocking probe
  fail with \<open>EAGAIN\<close> and let the blocking fetch then be interrupted any number of times.
  While nothing else comes from the kernel, \<open>init_once\<close> has printed the diagnostic, has
  issued the blocking fetch once per interruption and is waiting in it; nothing is
  committed. When the fetch then hands over its byte, \<open>init_once\<close> returns with
  \<open>kHaveGetrandom\<close> committed; the trace holds the probe, the diagnostic and the blocking
  fetches only: the device is not opened and no descriptor is touched. When the fetch then
  ends in any other way than with one byte or an interruption, \<open>init_once\<close> leaves the loop
  and goes on to the device, with the requested descriptor if there is one.
\<close>

theorem init_once_EAGAIN_blocks:
  assumes "use_sys_getrandom cfg"
    and "rv p = - 1" and "rerrno p = EAGAIN"
    and "\<forall>r\<in>set ints. is_eintr r"
  shows "(kernel w = p # ints \<longrightarrow>
            (\<exists>w'. init_once cfg w = Block w' \<and> urandom_fd w' = urandom_fd w \<and>
               trace w' = trace w @
                 [Lock_read, Unlock_read, Call (Sys_getrandom Dummy 1 GRND_NONBLOCK) p,
                  Fprintf Msg_pool_not_initialized] @
                 map (Call (Sys_getrandom Dummy 1 0)) ints)) \<and>
         (kernel w = p # ints @ ok # rest \<and> rv ok = 1 \<longrightarrow>
            (\<exists>w'. init_once cfg w = Return () w' \<and> urandom_fd w' = kHaveGetrandom \<and>
               kernel w' = rest \<and> mem w' = mem w \<and>
               urandom_fd_requested w' = urandom_fd_requested w \<and>
               trace w' = trace w @
                 [Lock_read, Unlock_read, Call (Sys_getrandom Dummy 1 GRND_NONBLOCK) p,
                  Fprintf Msg_pool_not_initialized] @
                 map (Call (Sys_getrandom Dummy 1 0)) (ints @ [ok]))) \<and>
         (kernel w = p # ints @ bad # rest \<and> rv bad \<noteq> 1 \<and> \<not> is_eintr bad \<longrightarrow>
            (\<exists>w'. init_once cfg w = init_urandom cfg (urandom_fd_requested w) w' \<and>
               urandom_fd w' = urandom_fd w \<and> kernel w' = rest \<and>
               trace w' = trace w @
                 [Lock_read, Unlock_read, Call (Sys_getrandom Dummy 1 GRND_NONBLOCK) p,
                  Fprintf Msg_pool_not_initialized] @
                 map (Call (Sys_getrandom Dummy 1 0)) (ints @ [bad])))"
proof (intro conjI impI)
  let ?w0 = "log Unlock_read (log Lock_read w)"
  let ?probe = "Sys_getrandom Dummy 1 GRND_NONBLOCK"
  let ?fetch = "Sys_getrandom Dummy 1 0"
  {
    assume k: "kernel w = p # ints"
    let ?w1 = "log (Fprintf Msg_pool_not_initialized) (answered ?probe p (?w0\<lparr>kernel := ints\<rparr>))"
    let ?w2 = "(interrupted ?fetch ints ?w1)\<lparr>kernel := []\<rparr>"
    from k have probe: "syscall ?probe ?w0 = Return p (answered ?probe p (?w0\<lparr>kernel := ints\<rparr>))"
      by (simp add: syscall_Cons)
    from assms have "do_while_EINTR ?fetch ?w1 = do_while_EINTR ?fetch ?w2"
      by (intro do_while_EINTR_interrupted) simp_all
    then have loop: "do_while_EINTR ?fetch ?w1 = Block ?w2"
      by (simp add: do_while_EINTR_Nil)
    from assms probe loop have "init_getrandom ?w0 = Block ?w2"
      by (simp add: init_getrandom_def)
    with assms have "init_once cfg w = Block ?w2"
      by (simp add: init_once_def Let_def)
    then show "\<exists>w'. init_once cfg w = Block w' \<and> urandom_fd w' = urandom_fd w \<and>
        trace w' = trace w @ [Lock_read, Unlock_read, Call ?probe p,
                              Fprintf Msg_pool_not_initialized] @ map (Call ?fetch) ints"
      by (simp add: interrupted_def)
  }
  {
    assume k: "kernel w = p # ints @ ok # rest \<and> rv ok = 1"
    let ?w1 = "log (Fprintf Msg_pool_not_initialized)
                 (answered ?probe p (?w0\<lparr>kernel := ints @ ok # rest\<rparr>))"
    let ?w2 = "answered ?fetch ok ((interrupted ?fetch ints ?w1)\<lparr>kernel := rest\<rparr>)"
    from k have probe: "syscall ?probe ?w0 =
        Return p (answered ?probe p (?w0\<lparr>kernel := ints @ ok # rest\<rparr>))"
      by (simp add: syscall_Cons)
    from k have "\<not> is_eintr ok"
      by (simp add: is_eintr_def)
    with assms have loop: "do_while_EINTR ?fetch ?w1 = Return ok ?w2"
      by (intro do_while_EINTR_script) simp_all
    from assms k probe loop
    have "init_getrandom ?w0 = Return True (?w2\<lparr>urandom_fd := kHaveGetrandom\<rparr>)"
      by (simp add: init_getrandom_def)
    with assms have "init_once cfg w = Return () (?w2\<lparr>urandom_fd := kHaveGetrandom\<rparr>)"
      by (simp add: init_once_def Let_def)
    then show "\<exists>w'. init_once cfg w = Return () w' \<and> urandom_fd w' = kHaveGetrandom \<and>
        kernel w' = rest \<and> mem w' = mem w \<and>
        urandom_fd_requested w' = urandom_fd_requested w \<and>
        trace w' = trace w @ [Lock_read, Unlock_read, Call ?probe p,
                              Fprintf Msg_pool_not_initialized] @ map (Call ?fetch) (ints @ [ok])"
      by (simp add: interrupted_def)
  }
  {
    assume k: "kernel w = p # ints @ bad # rest \<and> rv bad \<noteq> 1 \<and> \<not> is_eintr bad"
    let ?w1 = "log (Fprintf Msg_pool_not_initialized)
                 (answered ?probe p (?w0\<lparr>kernel := ints @ bad # rest\<rparr>))"
    let ?w2 = "answered ?fetch bad ((interrupted ?fetch ints ?w1)\<lparr>kernel := rest\<rparr>)"
    from k have probe: "syscall ?probe ?w0 =
        Return p (answered ?probe p (?w0\<lparr>kernel := ints @ bad # rest\<rparr>))"
      by (simp add: syscall_Cons)
    from assms k have loop: "do_while_EINTR ?fetch ?w1 = Return bad ?w2"
      by (intro do_while_EINTR_script) simp_all
    from assms k probe loop have "init_getrandom ?w0 = Return False ?w2"
      by (simp add: init_getrandom_def)
    with assms have "init_once cfg w = init_urandom cfg (urandom_fd_requested w) ?w2"
      by (simp add: init_once_def Let_def)
    then show "\<exists>w'. init_once cfg w = init_urandom cfg (urandom_fd_requested w) w' \<and>
        urandom_fd w' = urandom_fd w \<and> kernel w' = rest \<and>
        trace w' = trace w @ [Lock_read, Unlock_read, Call ?probe p,
                              Fprintf Msg_pool_not_initialized] @ map (Call ?fetch) (ints @ [bad])"
      by (intro exI [of _ ?w2]) (simp add: interrupted_def)
  }
qed

theorem init_once_EAGAIN_blocks_witness:
  "(\<exists>w'. init_once (build True False) (boot [fails EAGAIN, fails EINTR, fails EINTR, bytes [9]]) =
          Return () w' \<and>
      urandom_fd w' = kHaveGetrandom \<and> kernel w' = [] \<and>
      trace w' =
        [Lock_read, Unlock_read, Call (Sys_getrandom Dummy 1 GRND_NONBLOCK) (fails EAGAIN),
         Fprintf Msg_pool_not_initialized,
         Call (Sys_getrandom Dummy 1 0) (fails EINTR), Call (Sys_getrandom Dummy 1 0) (fails EINTR),
         Call (Sys_getrandom Dummy 1 0) (bytes [9])]) \<and>
   (\<exists>w'. init_once (build True False) (boot [fails EAGAIN, fails EINTR, fails EINTR]) = Block w' \<and>
      urandom_fd w' = kUnset \<and>
      trace w' =
        [Lock_read, Unlock_read, Call (Sys_getrandom Dummy 1 GRND_NONBLOCK) (fails EAGAIN),
         Fprintf Msg_pool_not_initialized,
         Call (Sys_getrandom Dummy 1 0) (fails EINTR), Call (Sys_getrandom Dummy 1 0) (fails EINTR)]) \<and>
   (\<exists>w'. init_once (build True False) (boot [fails EAGAIN, fails EINTR, fails (EOTHER 5), gives 3]) =
          init_urandom (build True False) kUnset w' \<and>
      kernel w' = [gives 3] \<and>
      trace w' =
        [Lock_read, Unlock_read, Call (Sys_getrandom Dummy 1 GRND_NONBLOCK) (fails EAGAIN),
         Fprintf Msg_pool_not_initialized,
         Call (Sys_getrandom Dummy 1 0) (fails EINTR),
         Call (Sys_getrandom Dummy 1 0) (fails (EOTHER 5))])"
proof -
  have build: "use_sys_getrandom (build True False)"
    and p: "rv (fails EAGAIN) = - 1" "rerrno (fails EAGAIN) = EAGAIN"
    and ints: "\<forall>r\<in>set [fails EINTR, fails EINTR]. is_eintr r"
    and one: "\<forall>r\<in>set [fails EINTR]. is_eintr r"
    by (simp_all add: build_def fails_def is_eintr_def)
  let ?a = "boot [fails EAGAIN, fails EINTR, fails EINTR, bytes [9]]"
  let ?b = "boot [fails EAGAIN, fails EINTR, fails EINTR]"
  let ?c = "boot [fails EAGAIN, fails EINTR, fails (EOTHER 5), gives 3]"
  have "kernel ?a = fails EAGAIN # [fails EINTR, fails EINTR] @ bytes [9] # [] \<and> rv (bytes [9]) = 1"
    by (simp add: boot_def bytes_def)
  with init_once_EAGAIN_blocks [OF build p ints, where w = ?a and ok = "bytes [9]" and rest = "[]"]
  have 1: "\<exists>w'. init_once (build True False) ?a = Return () w' \<and>
      urandom_fd w' = kHaveGetrandom \<and> kernel w' = [] \<and>
      trace w' = trace ?a @
        [Lock_read, Unlock_read, Call (Sys_getrandom Dummy 1 GRND_NONBLOCK) (fails EAGAIN),
         Fprintf Msg_pool_not_initialized] @
        map (Call (Sys_getrandom Dummy 1 0)) ([fails EINTR, fails EINTR] @ [bytes [9]])"
    by blast
  have "kernel ?b = fails EAGAIN # [fails EINTR, fails EINTR]"
    by (simp add: boot_def)
  with init_once_EAGAIN_blocks [OF build p ints, where w = ?b]
  have 2: "\<exists>w'. init_once (build True False) ?b = Block w' \<and> urandom_fd w' = urandom_fd ?b \<and>
      trace w' = trace ?b @
        [Lock_read, Unlock_read, Call (Sys_getrandom Dummy 1 GRND_NONBLOCK) (fails EAGAIN),
         Fprintf Msg_pool_not_initialized] @
        map (Call (Sys_getrandom Dummy 1 0)) [fails EINTR, fails EINTR]"
    by blast
  have "kernel ?c = fails EAGAIN # [fails EINTR] @ fails (EOTHER 5) # [gives 3] \<and>
      rv (fails (EOTHER 5)) \<noteq> 1 \<and> \<not> is_eintr (fails (EOTHER 5))"
    by (simp add: boot_def fails_def is_eintr_def)
  with init_once_EAGAIN_blocks [OF build p one, where w = ?c and bad = "fails (EOTHER 5)"
      and rest = "[gives 3]"]
  have 3: "\<exists>w'. init_once (build True False) ?c =
        init_urandom (build True False) (urandom_fd_requested ?c) w' \<and>
      urandom_fd w' = urandom_fd ?c \<and> kernel w' = [gives 3] \<and>
      trace w' = trace ?c @
        [Lock_read, Unlock_read, Call (Sys_getrandom Dummy 1 GRND_NONBLOCK) (fails EAGAIN),
         Fprintf Msg_pool_not_initialized] @
        map (Call (Sys_getrandom Dummy 1 0)) ([fails EINTR] @ [fails (EOTHER 5)])"
    by blast
  from 1 2 3 show ?thesis
    by (simp add: boot_def) blast
qed

text \<open>
  Claim C5 as stated fails when the blocking fetch ends with a failure other than the
  interruption: the loop is left, the device is opened and a descriptor is committed.
\<close>

theorem blocking_fetch_failure_counterexample:
  "init_once (build True False) (boot [fails EAGAIN, fails (EOTHER 5), gives 3, gives 0, gives 0]) =
     Return () ((boot [])\<lparr>urandom_fd := 3, errno := EOTHER 5,
        trace := [Lock_read, Unlock_read, Call (Sys_getrandom Dummy 1 GRND_NONBLOCK) (fails EAGAIN),
                  Fprintf Msg_pool_not_initialized,
                  Call (Sys_getrandom Dummy 1 0) (fails (EOTHER 5)),
                  Call Sys_open (gives 3), Call (Sys_fcntl_GETFD 3) (gives 0),
                  Call (Sys_fcntl_SETFD 3 1) (gives 0)]\<rparr>)"
  by (simp add: init_once_def init_urandom_def init_open_def init_cloexec_def init_getrandom_def
      do_while_EINTR.simps syscall_def answered_def log_def
      boot_def build_def gives_def fails_def kUnset_def kHaveGetrandom_def FD_CLOEXEC_def)

subsection \<open>Overriding after initialization\<close>

lemma CRYPTO_once_done: "once w \<Longrightarrow> CRYPTO_once init w = Return () w"
  by (simp add: CRYPTO_once_def)

lemma RAND_set_urandom_fd_store_ok:
  "kernel w = d # rest \<Longrightarrow> 0 \<le> rv d \<Longrightarrow>
   RAND_set_urandom_fd_store fd w =
     Return (rv d)
       (log Unlock_write
          ((log Lock_write (answered (Sys_dup fd) d (w\<lparr>kernel := rest\<rparr>)))
             \<lparr>urandom_fd_requested := rv d\<rparr>))"
  by (simp add: RAND_set_urandom_fd_store_def syscall_Cons)

text \<open>
  Claim C6. A call of \<open>RAND_set_urandom_fd\<close> after the initializer has run. With
  \<open>kHaveGetrandom\<close> committed and \<open>dup\<close> successful, the call returns and the last thing it
  did was to close the duplicate. With a descriptor committed, the call aborts whenever the
  descriptor that \<open>dup\<close> handed back is not the committed one (a failed \<open>dup\<close> included); the
  committed descriptor is open, so \<open>dup\<close> never hands it back.
\<close>

theorem RAND_set_urandom_fd_after_init:
  assumes "once w" and "kernel w = d # rest"
  shows "(urandom_fd w = kHaveGetrandom \<and> 0 \<le> rv d \<longrightarrow>
            (\<exists>w'. RAND_set_urandom_fd cfg fd w = Return () w' \<and>
               trace w' = trace w @ [Call (Sys_dup fd) d, Lock_write, Unlock_write, Close (rv d)] \<and>
               urandom_fd w' = kHaveGetrandom \<and> kernel w' = rest)) \<and>
         (0 \<le> urandom_fd w \<and> rv d \<noteq> urandom_fd w \<longrightarrow>
            is_Abort (RAND_set_urandom_fd cfg fd w))"
proof (intro conjI impI)
  assume "urandom_fd w = kHaveGetrandom \<and> 0 \<le> rv d"
  with assms show "\<exists>w'. RAND_set_urandom_fd cfg fd w = Return () w' \<and>
               trace w' = trace w @ [Call (Sys_dup fd) d, Lock_write, Unlock_write, Close (rv d)] \<and>
               urandom_fd w' = kHaveGetrandom \<and> kernel w' = rest"
    by (simp add: RAND_set_urandom_fd_def RAND_set_urandom_fd_store_ok
        RAND_set_urandom_fd_check_def CRYPTO_once_done log_def answered_def)
next
  assume legacy: "0 \<le> urandom_fd w \<and> rv d \<noteq> urandom_fd w"
  show "is_Abort (RAND_set_urandom_fd cfg fd w)"
  proof (cases "rv d < 0")
    case True
    with assms show ?thesis
      by (simp add: RAND_set_urandom_fd_def RAND_set_urandom_fd_store_def syscall_Cons)
  next
    case False
    with assms legacy show ?thesis
      by (simp add: RAND_set_urandom_fd_def RAND_set_urandom_fd_store_ok
          RAND_set_urandom_fd_check_def CRYPTO_once_done log_def answered_def kHaveGetrandom_def)
  qed
qed

theorem RAND_set_urandom_fd_after_init_witness:
  "(\<exists>w'. RAND_set_urandom_fd (build True False) 5
           ((boot [gives 4])\<lparr>once := True, urandom_fd := kHaveGetrandom\<rparr>) = Return () w' \<and>
      trace w' = [Call (Sys_dup 5) (gives 4), Lock_write, Unlock_write, Close 4]) \<and>
   is_Abort (RAND_set_urandom_fd (build False False) 5
           ((boot [gives 4])\<lparr>once := True, urandom_fd := 3\<rparr>))"
  using RAND_set_urandom_fd_after_init [of "(boot [gives 4])\<lparr>once := True, urandom_fd := kHaveGetrandom\<rparr>"
      "gives 4" "[]" "build True False" 5]
    RAND_set_urandom_fd_after_init [of "(boot [gives 4])\<lparr>once := True, urandom_fd := 3\<rparr>"
      "gives 4" "[]" "build False False" 5]
  by (auto simp add: boot_def gives_def)

subsection \<open>A fatal reply means that the process has aborted\<close>

lemma news_append: "trace w' = trace w @ evs \<Longrightarrow> news w w' = evs"
  by (simp add: news_def)

lemma cleanI:
  "trace w' = trace w @ evs \<Longrightarrow> list_all (\<lambda>e. \<not> fatal_event e) evs \<Longrightarrow> clean w w'"
  by (simp add: clean_def news_def)

lemma clean_refl [simp]: "clean w w"
  by (rule cleanI [of _ _ "[]"]) simp_all

lemma clean_same_trace: "trace w' = trace w \<Longrightarrow> clean w w'"
  by (rule cleanI [of _ _ "[]"]) simp_all

lemma clean_trans: "clean w w1 \<Longrightarrow> clean w1 w2 \<Longrightarrow> clean w w2"
  by (rule cleanI [of _ _ "news w w1 @ news w1 w2"]) (simp_all add: clean_def)

lemma clean_news: "clean w w1 \<Longrightarrow> clean w1 w2 \<Longrightarrow> news w w2 = news w w1 @ news w1 w2"
  by (rule news_append) (simp add: clean_def)

lemma clean_step:
  "clean w w1 \<Longrightarrow> trace w2 = trace w1 @ evs \<Longrightarrow> list_all (\<lambda>e. \<not> fatal_event e) evs \<Longrightarrow> clean w w2"
  by (erule clean_trans) (rule cleanI)

lemma syscall_cases:
  obtains (Block) "kernel w = []" "syscall c w = Block w"
  | (Return) r rs where "kernel w = r # rs" "syscall c w = Return r (answered c r (w\<lparr>kernel := rs\<rparr>))"
  by (cases "kernel w") (auto simp: syscall_def)

lemma do_while_EINTR_clean:
  assumes "\<And>r. is_eintr r \<Longrightarrow> \<not> fatal_reply c r"
  shows "(case do_while_EINTR c w of
      Return r w' \<Rightarrow> \<not> is_eintr r \<and> (fatal_reply c r \<or> clean w w')
    | Abort w' \<Rightarrow> False
    | Block w' \<Rightarrow> clean w w')"
  using assms
proof (induction c w rule: do_while_EINTR.induct)
  case (1 c w)
  show ?case
  proof (cases "kernel w")
    case Nil
    then show ?thesis by (simp add: do_while_EINTR_Nil)
  next
    case (Cons r rs)
    let ?w1 = "answered c r (w\<lparr>kernel := rs\<rparr>)"
    from Cons have sys: "syscall c w = Return r ?w1"
      by (rule syscall_Cons)
    show ?thesis
    proof (cases "is_eintr r")
      case True
      with "1.prems" have "\<not> fatal_reply c r"
        by simp
      then have step: "clean w ?w1"
        by (intro cleanI [of _ _ "[Call c r]"]) simp_all
      from "1.IH" [OF sys _ "1.prems"] True
      have "case do_while_EINTR c ?w1 of
              Return r' w' \<Rightarrow> \<not> is_eintr r' \<and> (fatal_reply c r' \<or> clean ?w1 w')
            | Abort w' \<Rightarrow> False
            | Block w' \<Rightarrow> clean ?w1 w'"
        by (simp add: is_eintr_def)
      with step show ?thesis
        by (auto simp: do_while_EINTR_retry [OF Cons True] dest: clean_trans split: outcome.splits)
    next
      case False
      have "fatal_reply c r \<or> clean w ?w1"
        by (auto intro!: cleanI [of _ _ "[Call c r]"])
      with False show ?thesis
        by (simp add: do_while_EINTR_done [OF Cons False])
    qed
  qed
qed

lemma syscall_benign:
  assumes "\<And>r. \<not> fatal_reply c r"
  shows "clean w (world_of (syscall c w))"
  using assms by (cases rule: syscall_cases [of w c]) (auto intro!: cleanI [of _ _ "[Call c _]"])

lemma fill_call_clean:
  "(case fill_call cfg out len w of
      Return r w' \<Rightarrow> rv r \<le> 0 \<or> clean w w'
    | Abort w' \<Rightarrow> True
    | Block w' \<Rightarrow> clean w w')"
  using do_while_EINTR_clean [of "Sys_getrandom (Buf out) len 0" w]
    do_while_EINTR_clean [of "Sys_read (urandom_fd w) out len" w]
  by (auto simp: fill_call_def split: outcome.splits)

lemma fill_with_entropy_clean:
  "(case fill_with_entropy cfg out len w of
      Return ok w' \<Rightarrow> ok = 0 \<or> ok = 1 \<and> clean w w'
    | Abort w' \<Rightarrow> True
    | Block w' \<Rightarrow> clean w w')"
proof (induction cfg out len w rule: fill_with_entropy.induct)
  case (1 cfg out len w)
  show ?case
  proof (cases "0 < len")
    case False
    then show ?thesis by (simp add: fill_with_entropy_zero)
  next
    case True
    show ?thesis
    proof (cases "fill_call cfg out len w")
      case (Return r w1)
      show ?thesis
      proof (cases "rv r \<le> 0")
        case le: True
        with True Return show ?thesis
          by (simp add: fill_with_entropy.simps [of cfg out len w])
      next
        case gt: False
        with fill_call_clean [where cfg = cfg and out = out and len = len and w = w] Return have step: "clean w w1"
          by simp
        from "1.IH" [OF True Return gt] step True Return gt show ?thesis
          by (auto simp: fill_with_entropy.simps [of cfg out len w] dest: clean_trans
              split: outcome.splits)
      qed
    next
      case (Abort w1)
      with True show ?thesis by (simp add: fill_with_entropy.simps [of cfg out len w])
    next
      case (Block w1)
      with True fill_call_clean [where cfg = cfg and out = out and len = len and w = w] show ?thesis
        by (simp add: fill_with_entropy.simps [of cfg out len w])
    qed
  qed
qed

lemma clean_updates [simp]:
  "clean w (w'\<lparr>urandom_fd := a\<rparr>) = clean w w'"
  "clean w (w'\<lparr>urandom_fd_requested := b\<rparr>) = clean w w'"
  "clean w (w'\<lparr>once := c\<rparr>) = clean w w'"
  "clean w (w'\<lparr>kernel := d\<rparr>) = clean w w'"
  by (simp_all add: clean_def news_def)

lemma clean_log: "\<not> fatal_event e \<Longrightarrow> clean w w1 \<Longrightarrow> clean w (log e w1)"
  by (erule clean_step [of _ _ _ "[e]"]) simp_all

lemma clean_answered: "\<not> fatal_reply c r \<Longrightarrow> clean w w1 \<Longrightarrow> clean w (answered c r w1)"
  by (erule clean_step [of _ _ _ "[Call c r]"]) simp_all

lemma do_while_EINTR_benign_clean:
  assumes "\<And>r. \<not> fatal_reply c r" and "clean w w1"
  shows "clean w (world_of (do_while_EINTR c w1))" and "\<not> is_Abort (do_while_EINTR c w1)"
  using do_while_EINTR_clean [of c w1] assms
  by (auto split: outcome.splits dest: clean_trans)

lemma init_getrandom_clean:
  shows "clean w (world_of (init_getrandom w))" and "\<not> is_Abort (init_getrandom w)"
proof -
  let ?probe = "Sys_getrandom Dummy 1 GRND_NONBLOCK"
  have "clean w (world_of (init_getrandom w)) \<and> \<not> is_Abort (init_getrandom w)"
  proof (cases rule: syscall_cases [of w ?probe])
    case Block
    then show ?thesis by (simp add: init_getrandom_def)
  next
    case (Return r rs)
    let ?w1 = "answered ?probe r (w\<lparr>kernel := rs\<rparr>)"
    let ?w2 = "log (Fprintf Msg_pool_not_initialized) ?w1"
    have "clean w ?w1"
      by (simp add: clean_answered)
    then have "clean w ?w2"
      by (simp add: clean_log)
    then have "clean w (world_of (do_while_EINTR (Sys_getrandom Dummy 1 0) ?w2))"
      and "\<not> is_Abort (do_while_EINTR (Sys_getrandom Dummy 1 0) ?w2)"
      by (simp_all add: do_while_EINTR_benign_clean)
    with \<open>clean w ?w1\<close> Return show ?thesis
      by (auto simp: init_getrandom_def split: outcome.splits)
  qed
  then show "clean w (world_of (init_getrandom w))" and "\<not> is_Abort (init_getrandom w)"
    by simp_all
qed

lemma init_open_clean:
  "(case init_open fd w of
      Return fd' w' \<Rightarrow> fd' < 0 \<or> clean w w'
    | Abort w' \<Rightarrow> False
    | Block w' \<Rightarrow> clean w w')"
  using do_while_EINTR_clean [of Sys_open w]
  by (auto simp: init_open_def split: outcome.splits)

lemma survives_trans: "clean w w1 \<Longrightarrow> survives w1 res \<Longrightarrow> survives w res"
  by (auto simp: survives_def dest: clean_trans)

lemma init_fips_survives: "survives w (init_fips fd first w)"
proof (induction fd first w rule: init_fips.induct)
  case (1 fd first w)
  let ?q = "Sys_ioctl_RNDGETENTCNT fd"
  show ?case
  proof (cases rule: syscall_cases [of w ?q])
    case Block
    then show ?thesis by (simp add: init_fips.simps [of fd first w] survives_def)
  next
    case (Return r rs)
    let ?w1 = "answered ?q r (w\<lparr>kernel := rs\<rparr>)"
    let ?w2 = "log (Usleep 250000)
                 (if first then log (Fprintf (Msg_too_few_bits (rout r) kBitsNeeded)) ?w1 else ?w1)"
    show ?thesis
    proof (cases "rv r \<noteq> 0")
      case True
      with Return show ?thesis
        by (simp add: init_fips.simps [of fd first w] survives_def)
    next
      case False
      then have w1: "clean w ?w1"
        by (simp add: clean_answered)
      then have w2: "clean w ?w2"
        by (simp add: clean_log)
      show ?thesis
      proof (cases "kBitsNeeded \<le> rout r")
        case True
        with False Return w1 show ?thesis
          by (simp add: init_fips.simps [of fd first w] survives_def)
      next
        case low: False
        with "1.IH" [OF Return(2)] False have "survives ?w2 (init_fips fd False ?w2)"
          by simp
        with w2 have "survives w (init_fips fd False ?w2)"
          by (rule survives_trans)
        with False low Return show ?thesis
          by (simp add: init_fips.simps [of fd first w])
      qed
    qed
  qed
qed

lemma init_cloexec_survives: "survives w (init_cloexec fd w)"
proof (cases rule: syscall_cases [of w "Sys_fcntl_GETFD fd"])
  case Block
  then show ?thesis by (simp add: init_cloexec_def survives_def)
next
  case (Return r rs)
  let ?w1 = "answered (Sys_fcntl_GETFD fd) r (w\<lparr>kernel := rs\<rparr>)"
  let ?set = "Sys_fcntl_SETFD fd (rv r OR FD_CLOEXEC)"
  show ?thesis
  proof (cases "rv r = - 1")
    case True
    then show ?thesis
      using Return by (auto simp: init_cloexec_def survives_def intro!: clean_answered)
  next
    case False
    then have w1: "clean w ?w1"
      by (simp add: clean_answered)
    show ?thesis
    proof (cases rule: syscall_cases [of ?w1 ?set])
      case Block
      with False Return w1 show ?thesis
        by (simp add: init_cloexec_def survives_def)
    next
      case set: (Return r2 rs2)
      show ?thesis
      proof (cases "rv r2 = - 1")
        case True
        with False Return set show ?thesis
          by (simp add: init_cloexec_def survives_def)
      next
        case ok: False
        with w1 have "clean w (answered ?set r2 (?w1\<lparr>kernel := rs2\<rparr>))"
          by (intro clean_answered) simp_all
        with False ok Return set show ?thesis
          by (simp add: init_cloexec_def survives_def)
      qed
    qed
  qed
qed

lemma init_urandom_survives: "survives w (init_urandom cfg fd w)"
proof (cases "init_open fd w")
  case (Return fd1 w1)
  show ?thesis
  proof (cases "fd1 < 0")
    case True
    with Return show ?thesis by (simp add: init_urandom_def survives_def)
  next
    case False
    with init_open_clean [where fd = fd and w = w] Return have w1: "clean w w1"
      by simp
    have "survives w1 (init_fips fd1 True w1)"
      by (rule init_fips_survives)
    with w1 have fips: "survives w (init_fips fd1 True w1)"
      by (rule survives_trans)
    have cloexec: "survives w (init_cloexec fd1 w2)" if "clean w w2" for w2
      using that init_cloexec_survives by (rule survives_trans)
    show ?thesis
    proof (cases "boringssl_fips cfg")
      case True
      with fips cloexec False Return show ?thesis
        by (cases "init_fips fd1 True w1") (simp_all add: init_urandom_def survives_def)
    next
      case no_fips: False
      with w1 cloexec False Return show ?thesis
        by (simp add: init_urandom_def)
    qed
  qed
next
  case (Abort w1)
  then show ?thesis by (simp add: init_urandom_def survives_def)
next
  case (Block w1)
  with init_open_clean [where fd = fd and w = w] show ?thesis
    by (simp add: init_urandom_def survives_def)
qed

lemma init_once_survives: "survives w (init_once cfg w)"
proof -
  let ?w0 = "log Unlock_read (log Lock_read w)"
  let ?probe = "if use_sys_getrandom cfg then init_getrandom ?w0 else Return False ?w0"
  have w0: "clean w ?w0"
    by (simp add: clean_log)
  have "clean ?w0 (world_of ?probe)" and no_abort: "\<not> is_Abort ?probe"
    by (simp_all add: init_getrandom_clean)
  with w0 have probe: "clean w (world_of ?probe)"
    by (blast intro: clean_trans)
  show ?thesis
  proof (cases ?probe)
    case (Return committed w1)
    with probe have w1: "clean w w1"
      by simp
    have "survives w1 (init_urandom cfg (urandom_fd_requested w) w1)"
      by (rule init_urandom_survives)
    with w1 have "survives w (init_urandom cfg (urandom_fd_requested w) w1)"
      by (auto simp: survives_def dest: clean_trans)
    with w1 Return show ?thesis
      by (simp add: init_once_def Let_def survives_def)
  next
    case (Abort w1)
    with no_abort show ?thesis by simp
  next
    case (Block w1)
    with probe show ?thesis
      by (simp add: init_once_def Let_def survives_def)
  qed
qed

lemma CRYPTO_once_survives: "survives w (CRYPTO_once (init_once cfg) w)"
  using init_once_survives [of w cfg]
  by (auto simp: CRYPTO_once_def survives_def split: outcome.splits)

lemma CRYPTO_sysrand_survives: "survives w (CRYPTO_sysrand cfg out len w)"
proof (cases "len = 0")
  case True
  then show ?thesis by (simp add: CRYPTO_sysrand_def survives_def)
next
  case False
  show ?thesis
  proof (cases "CRYPTO_once (init_once cfg) w")
    case (Return u w1)
    with CRYPTO_once_survives [of w cfg] have w1: "clean w w1"
      by (simp add: survives_def)
    from fill_with_entropy_clean [where cfg = cfg and out = out and len = len and w = w1] w1
    show ?thesis
      using False Return
      by (auto simp: CRYPTO_sysrand_def survives_def split: outcome.splits dest: clean_trans)
  next
    case (Abort w1)
    with False show ?thesis by (simp add: CRYPTO_sysrand_def survives_def)
  next
    case (Block w1)
    with False CRYPTO_once_survives [of w cfg] show ?thesis
      by (simp add: CRYPTO_sysrand_def survives_def)
  qed
qed

lemma io_failure_fatal: "io_failure c r \<Longrightarrow> fatal_reply c r"
  by (cases "(c, r)" rule: io_failure.cases) simp_all

lemma survives_no_fatal:
  assumes "survives w res" and "e \<in> set (news w (world_of res))" and "fatal_event e"
  shows "is_Abort res"
  using assms by (auto simp: survives_def clean_def list_all_iff)

text \<open>
  Claim C2. Among the calls a request issues, take a read or fetch of the fill engine
  answered with a result \<open>\<le> 0\<close>, or the opening of the device answered with a result
  \<open>< 0\<close>, other than the interrupted failure (\<open>-1\<close> with \<open>errno\<close> \<open>EINTR\<close>): \<open>io_failure\<close>.
  Whenever such a reply is among the events that \<open>CRYPTO_sysrand\<close> added to the trace,
  \<open>CRYPTO_sysrand\<close> has aborted: it has not returned and it is not waiting for the kernel.
  The function is \<open>void\<close>: what it hands back when it returns is \<open>()\<close>, neither a count nor
  an error value. The witness runs a build without \<open>getrandom\<close> in which the device cannot
  be opened, and an initialized process whose \<open>read\<close> reports end of file after two bytes.
\<close>

theorem CRYPTO_sysrand_fatal_aborts:
  assumes "0 < requested"
    and "Call c r \<in> set (news w (world_of (CRYPTO_sysrand cfg out requested w)))"
    and "io_failure c r"
  shows "is_Abort (CRYPTO_sysrand cfg out requested w)"
proof -
  from \<open>io_failure c r\<close> have "fatal_event (Call c r)"
    by (simp add: io_failure_fatal)
  with CRYPTO_sysrand_survives assms(2) show ?thesis
    by (rule survives_no_fatal)
qed

theorem CRYPTO_sysrand_fatal_aborts_witness:
  "Call Sys_open (fails (EOTHER 2)) \<in>
     set (news (boot [fails (EOTHER 2)])
            (world_of (CRYPTO_sysrand (build False False) 0 16 (boot [fails (EOTHER 2)])))) \<and>
   io_failure Sys_open (fails (EOTHER 2)) \<and>
   is_Abort (CRYPTO_sysrand (build False False) 0 16 (boot [fails (EOTHER 2)])) \<and>
   Call (Sys_read 3 2 14) (gives 0) \<in>
     set (news ((boot [bytes [1, 2], gives 0])\<lparr>once := True, urandom_fd := 3\<rparr>)
            (world_of (CRYPTO_sysrand (build False False) 0 16
               ((boot [bytes [1, 2], gives 0])\<lparr>once := True, urandom_fd := 3\<rparr>)))) \<and>
   io_failure (Sys_read 3 2 14) (gives 0) \<and>
   is_Abort (CRYPTO_sysrand (build False False) 0 16
               ((boot [bytes [1, 2], gives 0])\<lparr>once := True, urandom_fd := 3\<rparr>))"
proof -
  let ?w1 = "boot [fails (EOTHER 2)]"
  let ?w2 = "(boot [bytes [1, 2], gives 0])\<lparr>once := True, urandom_fd := 3\<rparr>"
  have open_failed: "Call Sys_open (fails (EOTHER 2)) \<in>
      set (news ?w1 (world_of (CRYPTO_sysrand (build False False) 0 16 ?w1)))"
    by (simp add: CRYPTO_sysrand_def CRYPTO_once_def init_once_def init_urandom_def
        init_open_def do_while_EINTR.simps syscall_def answered_def log_def news_def
        boot_def build_def fails_def kUnset_def)
  have read_failed: "Call (Sys_read 3 2 14) (gives 0) \<in>
      set (news ?w2 (world_of (CRYPTO_sysrand (build False False) 0 16 ?w2)))"
    by (simp add: CRYPTO_sysrand_def CRYPTO_once_def fill_with_entropy.simps fill_call_def
        do_while_EINTR.simps syscall_def answered_def log_def news_def
        boot_def build_def gives_def bytes_def kUnset_def kHaveGetrandom_def)
  have f1: "io_failure Sys_open (fails (EOTHER 2))"
    by (simp add: fails_def is_eintr_def)
  have f2: "io_failure (Sys_read 3 2 14) (gives 0)"
    by (simp add: gives_def is_eintr_def)
  from CRYPTO_sysrand_fatal_aborts [OF _ open_failed f1]
    CRYPTO_sysrand_fatal_aborts [OF _ read_failed f2] open_failed read_failed f1 f2
  show ?thesis by simp
qed

subsection \<open>The compliance gate\<close>

lemma count_simps [simp]:
  "count P [] = 0"
  "count P (e # evs) = (if P e then Suc (count P evs) else count P evs)"
  "count P (evs @ evs') = count P evs + count P evs'"
  by (simp_all add: count_def)

lemma count_gate_trace:
  "count is_poll (gate_trace fd first lows) = length lows"
  "count is_sleep (gate_trace fd first lows) = length lows"
  "count is_diagnostic (gate_trace fd first lows) = (if first \<and> lows \<noteq> [] then 1 else 0)"
  by (induction lows arbitrary: first) simp_all

lemma init_fips_low:
  assumes "kernel w = b # rs" and "rv b = 0" and "rout b < kBitsNeeded"
  shows "init_fips fd first w =
         init_fips fd False (w\<lparr>kernel := rs, trace := trace w @ gate_trace fd first [b]\<rparr>)"
proof -
  let ?w1 = "answered (Sys_ioctl_RNDGETENTCNT fd) b (w\<lparr>kernel := rs\<rparr>)"
  from assms have "init_fips fd first w =
      init_fips fd False
        (log (Usleep 250000)
           (if first then log (Fprintf (Msg_too_few_bits (rout b) kBitsNeeded)) ?w1 else ?w1))"
    by (simp add: init_fips.simps [of fd first w] syscall_Cons)
  moreover have "log (Usleep 250000)
          (if first then log (Fprintf (Msg_too_few_bits (rout b) kBitsNeeded)) ?w1 else ?w1) =
        w\<lparr>kernel := rs, trace := trace w @ gate_trace fd first [b]\<rparr>"
    using assms by (simp add: log_def answered_def)
  ultimately show ?thesis by (simp only:)
qed

lemma init_fips_lows:
  assumes "\<forall>b\<in>set lows. rv b = 0 \<and> rout b < kBitsNeeded" and "kernel w = lows @ rs"
  shows "init_fips fd first w =
         init_fips fd (first \<and> lows = [])
           (w\<lparr>kernel := rs, trace := trace w @ gate_trace fd first lows\<rparr>)"
  using assms
proof (induction lows arbitrary: w first)
  case Nil
  then have "w\<lparr>kernel := rs, trace := trace w @ gate_trace fd first []\<rparr> = w"
    by simp
  then show ?case by simp
next
  case (Cons b lows)
  let ?w1 = "w\<lparr>kernel := lows @ rs, trace := trace w @ gate_trace fd first [b]\<rparr>"
  from Cons.prems have "init_fips fd first w = init_fips fd False ?w1"
    by (intro init_fips_low) simp_all
  also from Cons.prems have "\<dots> = init_fips fd (False \<and> lows = [])
      (?w1\<lparr>kernel := rs, trace := trace ?w1 @ gate_trace fd False lows\<rparr>)"
    by (intro Cons.IH) simp_all
  finally show ?case by simp
qed

lemma init_fips_enough:
  assumes "kernel w = r # rest" and "rv r = 0" and "kBitsNeeded \<le> rout r"
  shows "init_fips fd first w =
         Return () (w\<lparr>kernel := rest, trace := trace w @ [Call (Sys_ioctl_RNDGETENTCNT fd) r]\<rparr>)"
  using assms by (simp add: init_fips.simps [of fd first w] syscall_Cons answered_def)

lemma init_fips_failed:
  assumes "kernel w = r # rest" and "rv r \<noteq> 0"
  shows "is_Abort (init_fips fd first w)"
  using assms by (simp add: init_fips.simps [of fd first w] syscall_Cons)

lemma init_fips_Return:
  "init_fips fd first w = Return u w' \<Longrightarrow>
   \<exists>pre r. news w w' = pre @ [Call (Sys_ioctl_RNDGETENTCNT fd) r] \<and> rv r = 0 \<and> kBitsNeeded \<le> rout r"
proof (induction fd first w rule: init_fips.induct)
  case (1 fd first w)
  let ?q = "Sys_ioctl_RNDGETENTCNT fd"
  show ?case
  proof (cases rule: syscall_cases [of w ?q])
    case Block
    with "1.prems" show ?thesis by (simp add: init_fips.simps [of fd first w])
  next
    case (Return r rs)
    let ?w1 = "answered ?q r (w\<lparr>kernel := rs\<rparr>)"
    let ?w2 = "log (Usleep 250000)
                 (if first then log (Fprintf (Msg_too_few_bits (rout r) kBitsNeeded)) ?w1 else ?w1)"
    from "1.prems" Return have ok: "rv r = 0"
      by (auto simp: init_fips.simps [of fd first w] split: if_splits)
    show ?thesis
    proof (cases "kBitsNeeded \<le> rout r")
      case True
      with "1.prems" Return ok have "w' = ?w1"
        by (simp add: init_fips.simps [of fd first w])
      then have "news w w' = [] @ [Call ?q r]"
        by (simp add: news_def)
      with ok True show ?thesis by blast
    next
      case False
      with "1.prems" Return ok have rec: "init_fips fd False ?w2 = Return u w'"
        by (simp add: init_fips.simps [of fd first w])
      with "1.IH" [OF Return(2)] ok False
      obtain pre r' where r': "news ?w2 w' = pre @ [Call ?q r']" "rv r' = 0" "kBitsNeeded \<le> rout r'"
        by auto
      have "clean w ?w2"
        using ok by (auto intro!: clean_log clean_answered)
      moreover from init_fips_survives [of ?w2 fd False] rec have "clean ?w2 w'"
        by (simp add: survives_def)
      ultimately have "news w w' = news w ?w2 @ news ?w2 w'"
        by (rule clean_news)
      with r' have "news w w' = (news w ?w2 @ pre) @ [Call ?q r']"
        by simp
      with r' show ?thesis by blast
    qed
  qed
qed

lemma init_cloexec_Return_news:
  assumes "init_cloexec fd w = Return u w'"
  shows "urandom_fd w' = fd \<and>
    ((\<exists>q. news w w' = [Call (Sys_fcntl_GETFD fd) q] \<and> rv q = - 1 \<and> rerrno q = ENOSYS) \<or>
     (\<exists>q s. news w w' = [Call (Sys_fcntl_GETFD fd) q,
                         Call (Sys_fcntl_SETFD fd (rv q OR FD_CLOEXEC)) s] \<and>
            rv q \<noteq> - 1 \<and> rv s \<noteq> - 1))"
proof (cases rule: syscall_cases [of w "Sys_fcntl_GETFD fd"])
  case Block
  with assms show ?thesis by (simp add: init_cloexec_def)
next
  case (Return q rs)
  let ?w1 = "answered (Sys_fcntl_GETFD fd) q (w\<lparr>kernel := rs\<rparr>)"
  let ?set = "Sys_fcntl_SETFD fd (rv q OR FD_CLOEXEC)"
  show ?thesis
  proof (cases "rv q = - 1")
    case True
    with assms Return have "rerrno q = ENOSYS" and "w' = ?w1\<lparr>urandom_fd := fd\<rparr>"
      by (auto simp: init_cloexec_def split: if_splits)
    with True show ?thesis
      by (auto simp: news_def)
  next
    case False
    show ?thesis
    proof (cases rule: syscall_cases [of ?w1 ?set])
      case Block
      with assms False Return show ?thesis by (simp add: init_cloexec_def)
    next
      case set: (Return s rs2)
      with assms False Return
      have "rv s \<noteq> - 1" and "w' = (answered ?set s (?w1\<lparr>kernel := rs2\<rparr>))\<lparr>urandom_fd := fd\<rparr>"
        by (auto simp: init_cloexec_def split: if_splits)
      with False show ?thesis
        by (auto simp: news_def)
    qed
  qed
qed

lemma init_urandom_Return_stages:
  assumes "init_urandom cfg fd0 w = Return u w'"
  shows "\<exists>fd w1 w2. clean w w1 \<and> clean w1 w2 \<and> clean w2 w' \<and>
           (if boringssl_fips cfg then init_fips fd True w1 = Return () w2 else w2 = w1) \<and>
           init_cloexec fd w2 = Return u w'"
proof -
  from assms obtain fd w1 where op: "init_open fd0 w = Return fd w1" and fd: "\<not> fd < 0"
    by (cases "init_open fd0 w") (auto simp: init_urandom_def split: if_splits)
  with init_open_clean [where fd = fd0 and w = w] have w1: "clean w w1"
    by simp
  let ?gate = "if boringssl_fips cfg then init_fips fd True w1 else Return () w1"
  from assms op fd obtain w2 where gate: "?gate = Return () w2"
    and cl: "init_cloexec fd w2 = Return u w'"
    by (cases ?gate) (auto simp: init_urandom_def split: if_splits)
  from gate init_fips_survives [of w1 fd True] have w2: "clean w1 w2"
    by (auto simp: survives_def split: if_splits)
  from cl init_cloexec_survives [of w2 fd] have w': "clean w2 w'"
    by (simp add: survives_def)
  from gate have "if boringssl_fips cfg then init_fips fd True w1 = Return () w2 else w2 = w1"
    by (simp split: if_splits)
  with w1 w2 w' cl show ?thesis by blast
qed

lemma init_once_Return_stages:
  assumes "init_once cfg w = Return u w'" and "urandom_fd w' \<noteq> kHaveGetrandom"
  shows "\<exists>fd w1 w2. clean w w1 \<and> clean w1 w2 \<and> clean w2 w' \<and>
           (if boringssl_fips cfg then init_fips fd True w1 = Return () w2 else w2 = w1) \<and>
           init_cloexec fd w2 = Return u w'"
proof -
  let ?w0 = "log Unlock_read (log Lock_read w)"
  let ?probe = "if use_sys_getrandom cfg then init_getrandom ?w0 else Return False ?w0"
  have w0: "clean w ?w0"
    by (simp add: clean_log)
  have "clean ?w0 (world_of ?probe)"
    by (simp add: init_getrandom_clean)
  with w0 have probe: "clean w (world_of ?probe)"
    by (rule clean_trans)
  from assms(1) obtain committed w1 where ret: "?probe = Return committed w1"
    by (cases ?probe) (simp_all add: init_once_def Let_def)
  have "\<not> committed"
  proof
    assume committed
    with ret assms(1) have "w' = w1" and "init_getrandom ?w0 = Return True w1"
      by (auto simp: init_once_def Let_def split: if_splits)
    with init_getrandom_Return [of ?w0 True w1] assms(2) show False
      by simp
  qed
  with ret assms(1) have "init_urandom cfg (urandom_fd_requested w) w1 = Return u w'"
    by (simp add: init_once_def Let_def)
  then obtain fd w2 w3 where st: "clean w1 w2" "clean w2 w3" "clean w3 w'"
    "if boringssl_fips cfg then init_fips fd True w2 = Return () w3 else w3 = w2"
    "init_cloexec fd w3 = Return u w'"
    using init_urandom_Return_stages by blast
  from probe ret have "clean w w1"
    by simp
  from this st(1) have "clean w w2"
    by (rule clean_trans)
  with st show ?thesis by blast
qed

lemma cloexec_bit: "(flags OR FD_CLOEXEC) AND FD_CLOEXEC = FD_CLOEXEC"
  for flags :: int
  by (auto simp add: FD_CLOEXEC_def bit_eq_iff bit_and_iff bit_or_iff bit_1_iff)

text \<open>
  Claim C8. The loop of the compliance build, \<open>init_fips\<close>, answered with any number of
  successful queries below 256 bits and then one more reply \<open>r\<close>. If \<open>r\<close> reports at least
  256 bits the loop returns, having issued one query per reply, slept 250000 microseconds
  after each low one and printed the diagnostic after the first low one only
  (\<open>gate_trace\<close>); if \<open>r\<close> is a failed query the process aborts. In \<open>init_once\<close> of a
  compliance build, on every path: a descriptor is committed only after a query on that
  descriptor has reported at least 256 bits, and a failed query among the calls issued
  means that the process has aborted. The witness is the sequence 10, 100, 256: three
  queries.
\<close>

theorem init_once_fips_gate:
  "((\<forall>b\<in>set lows. rv b = 0 \<and> rout b < kBitsNeeded) \<and> kernel w = lows @ r # rest \<longrightarrow>
      (rv r = 0 \<and> kBitsNeeded \<le> rout r \<longrightarrow>
         init_fips fd True w =
           Return () (w\<lparr>kernel := rest,
                        trace := trace w @ gate_trace fd True lows @
                                 [Call (Sys_ioctl_RNDGETENTCNT fd) r]\<rparr>)) \<and>
      (rv r \<noteq> 0 \<longrightarrow> is_Abort (init_fips fd True w)) \<and>
      count is_poll (gate_trace fd True lows @ [Call (Sys_ioctl_RNDGETENTCNT fd) r]) =
        length lows + 1 \<and>
      count is_sleep (gate_trace fd True lows @ [Call (Sys_ioctl_RNDGETENTCNT fd) r]) =
        length lows \<and>
      count is_diagnostic (gate_trace fd True lows @ [Call (Sys_ioctl_RNDGETENTCNT fd) r]) =
        (if lows = [] then 0 else 1)) \<and>
   (boringssl_fips cfg \<and> init_once cfg w0 = Return u w1 \<and> urandom_fd w1 \<noteq> kHaveGetrandom \<longrightarrow>
      (\<exists>pre q post. news w0 w1 = pre @ Call (Sys_ioctl_RNDGETENTCNT (urandom_fd w1)) q # post \<and>
         rv q = 0 \<and> kBitsNeeded \<le> rout q \<and> count is_poll post = 0)) \<and>
   (Call (Sys_ioctl_RNDGETENTCNT fd') q' \<in> set (news w0 (world_of (init_once cfg w0))) \<and>
      rv q' \<noteq> 0 \<longrightarrow> is_Abort (init_once cfg w0))"
proof (intro conjI impI)
  assume a: "(\<forall>b\<in>set lows. rv b = 0 \<and> rout b < kBitsNeeded) \<and> kernel w = lows @ r # rest"
  let ?w1 = "w\<lparr>kernel := r # rest, trace := trace w @ gate_trace fd True lows\<rparr>"
  from a have lows: "init_fips fd True w = init_fips fd (True \<and> lows = []) ?w1"
    by (intro init_fips_lows) simp_all
  {
    assume "rv r = 0 \<and> kBitsNeeded \<le> rout r"
    then have "init_fips fd (True \<and> lows = []) ?w1 =
        Return () (?w1\<lparr>kernel := rest, trace := trace ?w1 @ [Call (Sys_ioctl_RNDGETENTCNT fd) r]\<rparr>)"
      by (intro init_fips_enough) simp_all
    with lows show "init_fips fd True w =
        Return () (w\<lparr>kernel := rest,
                     trace := trace w @ gate_trace fd True lows @
                              [Call (Sys_ioctl_RNDGETENTCNT fd) r]\<rparr>)"
      by simp
  }
  {
    assume "rv r \<noteq> 0"
    then have "is_Abort (init_fips fd (True \<and> lows = []) ?w1)"
      by (intro init_fips_failed [of _ r rest]) simp_all
    with lows show "is_Abort (init_fips fd True w)"
      by simp
  }
  show "count is_poll (gate_trace fd True lows @ [Call (Sys_ioctl_RNDGETENTCNT fd) r]) =
      length lows + 1"
    by (simp add: count_gate_trace)
  show "count is_sleep (gate_trace fd True lows @ [Call (Sys_ioctl_RNDGETENTCNT fd) r]) =
      length lows"
    by (simp add: count_gate_trace)
  show "count is_diagnostic (gate_trace fd True lows @ [Call (Sys_ioctl_RNDGETENTCNT fd) r]) =
      (if lows = [] then 0 else 1)"
    by (simp add: count_gate_trace)
next
  assume a: "boringssl_fips cfg \<and> init_once cfg w0 = Return u w1 \<and> urandom_fd w1 \<noteq> kHaveGetrandom"
  then obtain fd w2 w3 where st: "clean w0 w2" "clean w2 w3" "clean w3 w1"
    "init_fips fd True w2 = Return () w3" "init_cloexec fd w3 = Return u w1"
    using init_once_Return_stages [of cfg w0 u w1] by auto
  from init_fips_Return [OF st(4)] obtain pre q
    where q: "news w2 w3 = pre @ [Call (Sys_ioctl_RNDGETENTCNT fd) q]" "rv q = 0" "kBitsNeeded \<le> rout q"
    by blast
  from init_cloexec_Return_news [OF st(5)] have fd: "urandom_fd w1 = fd" and "count is_poll (news w3 w1) = 0"
    by auto
  moreover from st have "news w0 w1 = news w0 w2 @ news w2 w3 @ news w3 w1"
    by (metis clean_news clean_trans)
  ultimately have "news w0 w1 = (news w0 w2 @ pre) @ Call (Sys_ioctl_RNDGETENTCNT (urandom_fd w1)) q # news w3 w1"
    using q by simp
  with q \<open>count is_poll (news w3 w1) = 0\<close>
  show "\<exists>pre q post. news w0 w1 = pre @ Call (Sys_ioctl_RNDGETENTCNT (urandom_fd w1)) q # post \<and>
         rv q = 0 \<and> kBitsNeeded \<le> rout q \<and> count is_poll post = 0"
    by blast
next
  assume a: "Call (Sys_ioctl_RNDGETENTCNT fd') q' \<in> set (news w0 (world_of (init_once cfg w0))) \<and>
      rv q' \<noteq> 0"
  then have "fatal_event (Call (Sys_ioctl_RNDGETENTCNT fd') q')"
    by simp
  with init_once_survives a show "is_Abort (init_once cfg w0)"
    by (blast intro: survives_no_fatal)
qed

theorem init_once_fips_gate_witness:
  "init_fips 3 True (boot [entropy 10, entropy 100, entropy 256]) =
     Return () ((boot [])\<lparr>trace :=
       [Call (Sys_ioctl_RNDGETENTCNT 3) (entropy 10), Fprintf (Msg_too_few_bits 10 256),
        Usleep 250000,
        Call (Sys_ioctl_RNDGETENTCNT 3) (entropy 100), Usleep 250000,
        Call (Sys_ioctl_RNDGETENTCNT 3) (entropy 256)]\<rparr>) \<and>
   count is_poll (gate_trace 3 True [entropy 10, entropy 100] @
                  [Call (Sys_ioctl_RNDGETENTCNT 3) (entropy 256)]) = 3 \<and>
   is_Abort (init_fips 3 True (boot [entropy 10, fails (EOTHER 25)])) \<and>
   (\<exists>w1. init_once (build False True)
           (boot [gives 3, entropy 10, entropy 100, entropy 256, gives 0, gives 0]) = Return () w1 \<and>
      urandom_fd w1 = 3 \<and>
      (\<exists>pre q post.
         news (boot [gives 3, entropy 10, entropy 100, entropy 256, gives 0, gives 0]) w1 =
           pre @ Call (Sys_ioctl_RNDGETENTCNT 3) q # post \<and>
         rv q = 0 \<and> 256 \<le> rout q \<and> count is_poll post = 0)) \<and>
   is_Abort (init_once (build False True) (boot [gives 3, entropy 10, fails (EOTHER 25)]))"
proof -
  let ?w = "boot [entropy 10, entropy 100, entropy 256]"
  have lows: "(\<forall>b\<in>set [entropy 10, entropy 100]. rv b = 0 \<and> rout b < kBitsNeeded) \<and>
      kernel ?w = [entropy 10, entropy 100] @ entropy 256 # []"
    by (simp add: entropy_def kBitsNeeded_def boot_def)
  have enough: "rv (entropy 256) = 0 \<and> kBitsNeeded \<le> rout (entropy 256)"
    by (simp add: entropy_def kBitsNeeded_def)
  from init_once_fips_gate [of "[entropy 10, entropy 100]" ?w "entropy 256" "[]" 3] lows enough
  have pass: "init_fips 3 True ?w =
      Return () (?w\<lparr>kernel := [], trace := trace ?w @ gate_trace 3 True [entropy 10, entropy 100] @
         [Call (Sys_ioctl_RNDGETENTCNT 3) (entropy 256)]\<rparr>)"
    and three: "count is_poll (gate_trace 3 True [entropy 10, entropy 100] @
         [Call (Sys_ioctl_RNDGETENTCNT 3) (entropy 256)]) = length [entropy 10, entropy 100] + 1"
    by blast+
  let ?v = "boot [entropy 10, fails (EOTHER 25)]"
  have "(\<forall>b\<in>set [entropy 10]. rv b = 0 \<and> rout b < kBitsNeeded) \<and>
      kernel ?v = [entropy 10] @ fails (EOTHER 25) # []" and "rv (fails (EOTHER 25)) \<noteq> 0"
    by (simp_all add: entropy_def fails_def kBitsNeeded_def boot_def)
  with init_once_fips_gate [of "[entropy 10]" ?v "fails (EOTHER 25)" "[]" 3]
  have failed: "is_Abort (init_fips 3 True ?v)"
    by blast
  let ?init = "boot [gives 3, entropy 10, entropy 100, entropy 256, gives 0, gives 0]"
  let ?done = "(boot [])\<lparr>urandom_fd := 3, trace :=
       [Lock_read, Unlock_read, Call Sys_open (gives 3),
        Call (Sys_ioctl_RNDGETENTCNT 3) (entropy 10), Fprintf (Msg_too_few_bits 10 256),
        Usleep 250000,
        Call (Sys_ioctl_RNDGETENTCNT 3) (entropy 100), Usleep 250000,
        Call (Sys_ioctl_RNDGETENTCNT 3) (entropy 256),
        Call (Sys_fcntl_GETFD 3) (gives 0), Call (Sys_fcntl_SETFD 3 1) (gives 0)]\<rparr>"
  have run: "init_once (build False True) ?init = Return () ?done"
    by (simp add: init_once_def init_urandom_def init_open_def init_cloexec_def
        init_fips.simps do_while_EINTR.simps syscall_def answered_def log_def
        boot_def build_def gives_def entropy_def kUnset_def kBitsNeeded_def FD_CLOEXEC_def)
  have "boringssl_fips (build False True)" and "urandom_fd ?done \<noteq> kHaveGetrandom"
    by (simp_all add: build_def kHaveGetrandom_def)
  with init_once_fips_gate [of _ _ _ _ _ "build False True" ?init "()" ?done] run
  have gate: "\<exists>pre q post. news ?init ?done = pre @ Call (Sys_ioctl_RNDGETENTCNT (urandom_fd ?done)) q # post \<and>
         rv q = 0 \<and> kBitsNeeded \<le> rout q \<and> count is_poll post = 0"
    by blast
  let ?bad = "boot [gives 3, entropy 10, fails (EOTHER 25)]"
  have "Call (Sys_ioctl_RNDGETENTCNT 3) (fails (EOTHER 25)) \<in>
      set (news ?bad (world_of (init_once (build False True) ?bad)))"
    and "rv (fails (EOTHER 25)) \<noteq> 0"
    by (simp_all add: init_once_def init_urandom_def init_open_def init_cloexec_def
        init_fips.simps do_while_EINTR.simps syscall_def answered_def log_def news_def
        boot_def build_def gives_def entropy_def fails_def kUnset_def kBitsNeeded_def)
  with init_once_fips_gate [of _ _ _ _ _ "build False True" ?bad _ _ 3 "fails (EOTHER 25)"]
  have aborted: "is_Abort (init_once (build False True) ?bad)"
    by blast
  from pass have "init_fips 3 True ?w = Return () ((boot [])\<lparr>trace :=
       [Call (Sys_ioctl_RNDGETENTCNT 3) (entropy 10), Fprintf (Msg_too_few_bits 10 256),
        Usleep 250000,
        Call (Sys_ioctl_RNDGETENTCNT 3) (entropy 100), Usleep 250000,
        Call (Sys_ioctl_RNDGETENTCNT 3) (entropy 256)]\<rparr>)"
    by (simp add: boot_def entropy_def kBitsNeeded_def)
  moreover from gate run have "\<exists>w1. init_once (build False True) ?init = Return () w1 \<and>
      urandom_fd w1 = 3 \<and>
      (\<exists>pre q post. news ?init w1 = pre @ Call (Sys_ioctl_RNDGETENTCNT 3) q # post \<and>
         rv q = 0 \<and> 256 \<le> rout q \<and> count is_poll post = 0)"
    by (simp add: kBitsNeeded_def)
  ultimately show ?thesis
    using three failed aborted by simp
qed

subsection \<open>Close-on-exec\<close>

lemma init_cloexec_ENOSYS:
  assumes "kernel w = q # rest" and "rv q = - 1" and "rerrno q = ENOSYS"
  shows "init_cloexec fd w =
         Return () (w\<lparr>kernel := rest, errno := ENOSYS, urandom_fd := fd,
                      trace := trace w @ [Call (Sys_fcntl_GETFD fd) q]\<rparr>)"
  using assms by (simp add: init_cloexec_def syscall_Cons answered_def)

lemma init_cloexec_marked:
  assumes "kernel w = q # s # rest" and "rv q \<noteq> - 1" and "rv s \<noteq> - 1"
  shows "init_cloexec fd w =
         Return () (w\<lparr>kernel := rest, urandom_fd := fd,
                      trace := trace w @ [Call (Sys_fcntl_GETFD fd) q,
                                          Call (Sys_fcntl_SETFD fd (rv q OR FD_CLOEXEC)) s]\<rparr>)"
  using assms by (simp add: init_cloexec_def syscall_Cons answered_def)

lemma init_cloexec_query_failed:
  assumes "kernel w = q # rest" and "rv q = - 1" and "rerrno q \<noteq> ENOSYS"
  shows "is_Abort (init_cloexec fd w)"
  using assms by (simp add: init_cloexec_def syscall_Cons)

lemma init_cloexec_set_failed:
  assumes "kernel w = q # s # rest" and "rv q \<noteq> - 1" and "rv s = - 1"
  shows "is_Abort (init_cloexec fd w)"
  using assms by (simp add: init_cloexec_def syscall_Cons)

text \<open>
  Claim C9. The last stage of \<open>init_once\<close>, \<open>init_cloexec\<close>. If \<open>fcntl(fd, F_GETFD)\<close> fails
  with an \<open>errno\<close> other than \<open>ENOSYS\<close> the process aborts; if it fails with \<open>ENOSYS\<close> the
  descriptor is committed and \<open>F_SETFD\<close> is not issued. Otherwise \<open>F_SETFD\<close> is issued with
  the flags read and the bit \<open>FD_CLOEXEC\<close> set; if it fails the process aborts, otherwise
  the descriptor is committed. In \<open>init_once\<close>, on every path: when a descriptor has been
  committed, the last calls issued were this query failing with \<open>ENOSYS\<close>, or this query
  and this marking, both on the committed descriptor; and a query failed otherwise, or a
  failed marking, among the calls issued means that the process has aborted.
\<close>

theorem init_once_cloexec:
  "(kernel w = q # rest \<and> rv q = - 1 \<longrightarrow>
      (rerrno q \<noteq> ENOSYS \<longrightarrow> is_Abort (init_cloexec fd w)) \<and>
      (rerrno q = ENOSYS \<longrightarrow>
         init_cloexec fd w =
           Return () (w\<lparr>kernel := rest, errno := ENOSYS, urandom_fd := fd,
                        trace := trace w @ [Call (Sys_fcntl_GETFD fd) q]\<rparr>))) \<and>
   (kernel w = q # s # rest \<and> rv q \<noteq> - 1 \<longrightarrow>
      (rv s = - 1 \<longrightarrow> is_Abort (init_cloexec fd w)) \<and>
      (rv s \<noteq> - 1 \<longrightarrow>
         init_cloexec fd w =
           Return () (w\<lparr>kernel := rest, urandom_fd := fd,
                        trace := trace w @ [Call (Sys_fcntl_GETFD fd) q,
                                            Call (Sys_fcntl_SETFD fd (rv q OR FD_CLOEXEC)) s]\<rparr>)) \<and>
      (rv q OR FD_CLOEXEC) AND FD_CLOEXEC = FD_CLOEXEC) \<and>
   (init_once cfg w0 = Return u w1 \<and> urandom_fd w1 \<noteq> kHaveGetrandom \<longrightarrow>
      (\<exists>pre q. news w0 w1 = pre @ [Call (Sys_fcntl_GETFD (urandom_fd w1)) q] \<and>
         rv q = - 1 \<and> rerrno q = ENOSYS) \<or>
      (\<exists>pre q s. news w0 w1 =
           pre @ [Call (Sys_fcntl_GETFD (urandom_fd w1)) q,
                  Call (Sys_fcntl_SETFD (urandom_fd w1) (rv q OR FD_CLOEXEC)) s] \<and>
         rv q \<noteq> - 1 \<and> rv s \<noteq> - 1)) \<and>
   (Call (Sys_fcntl_GETFD fd') q' \<in> set (news w0 (world_of (init_once cfg w0))) \<and>
      rv q' = - 1 \<and> rerrno q' \<noteq> ENOSYS \<longrightarrow> is_Abort (init_once cfg w0)) \<and>
   (Call (Sys_fcntl_SETFD fd' flags) s' \<in> set (news w0 (world_of (init_once cfg w0))) \<and>
      rv s' = - 1 \<longrightarrow> is_Abort (init_once cfg w0))"
proof (intro conjI impI)
  assume a: "init_once cfg w0 = Return u w1 \<and> urandom_fd w1 \<noteq> kHaveGetrandom"
  then obtain fd w2 w3 where st: "clean w0 w2" "clean w2 w3" "clean w3 w1"
    "init_cloexec fd w3 = Return u w1"
    using init_once_Return_stages [of cfg w0 u w1] by auto
  from st have "clean w0 w3"
    by (blast intro: clean_trans)
  from this st(3) have news: "news w0 w1 = news w0 w3 @ news w3 w1"
    by (rule clean_news)
  from init_cloexec_Return_news [OF st(4)] have "urandom_fd w1 = fd"
    and "(\<exists>q. news w3 w1 = [Call (Sys_fcntl_GETFD fd) q] \<and> rv q = - 1 \<and> rerrno q = ENOSYS) \<or>
     (\<exists>q s. news w3 w1 = [Call (Sys_fcntl_GETFD fd) q,
                         Call (Sys_fcntl_SETFD fd (rv q OR FD_CLOEXEC)) s] \<and>
            rv q \<noteq> - 1 \<and> rv s \<noteq> - 1)"
    by simp_all
  with news show "(\<exists>pre q. news w0 w1 = pre @ [Call (Sys_fcntl_GETFD (urandom_fd w1)) q] \<and>
         rv q = - 1 \<and> rerrno q = ENOSYS) \<or>
      (\<exists>pre q s. news w0 w1 =
           pre @ [Call (Sys_fcntl_GETFD (urandom_fd w1)) q,
                  Call (Sys_fcntl_SETFD (urandom_fd w1) (rv q OR FD_CLOEXEC)) s] \<and>
         rv q \<noteq> - 1 \<and> rv s \<noteq> - 1)"
    by auto
next
  assume "Call (Sys_fcntl_GETFD fd') q' \<in> set (news w0 (world_of (init_once cfg w0))) \<and>
      rv q' = - 1 \<and> rerrno q' \<noteq> ENOSYS"
  moreover from this have "fatal_event (Call (Sys_fcntl_GETFD fd') q')"
    by simp
  ultimately show "is_Abort (init_once cfg w0)"
    using init_once_survives by (blast intro: survives_no_fatal)
next
  assume "Call (Sys_fcntl_SETFD fd' flags) s' \<in> set (news w0 (world_of (init_once cfg w0))) \<and>
      rv s' = - 1"
  moreover from this have "fatal_event (Call (Sys_fcntl_SETFD fd' flags) s')"
    by simp
  ultimately show "is_Abort (init_once cfg w0)"
    using init_once_survives by (blast intro: survives_no_fatal)
qed (simp_all add: init_cloexec_ENOSYS init_cloexec_marked init_cloexec_query_failed
    init_cloexec_set_failed cloexec_bit)

theorem init_once_cloexec_witness:
  "is_Abort (init_cloexec 3 (boot [fails (EOTHER 9)])) \<and>
   init_cloexec 3 (boot [fails ENOSYS]) =
     Return () ((boot [])\<lparr>errno := ENOSYS, urandom_fd := 3,
                         trace := [Call (Sys_fcntl_GETFD 3) (fails ENOSYS)]\<rparr>) \<and>
   is_Abort (init_cloexec 3 (boot [gives 0, fails (EOTHER 9)])) \<and>
   init_cloexec 3 (boot [gives 0, gives 0]) =
     Return () ((boot [])\<lparr>urandom_fd := 3,
                         trace := [Call (Sys_fcntl_GETFD 3) (gives 0),
                                   Call (Sys_fcntl_SETFD 3 1) (gives 0)]\<rparr>) \<and>
   (\<exists>w1. init_once (build False False) (boot [gives 3, gives 0, gives 0]) = Return () w1 \<and>
      urandom_fd w1 = 3 \<and>
      (\<exists>pre q s. news (boot [gives 3, gives 0, gives 0]) w1 =
           pre @ [Call (Sys_fcntl_GETFD 3) q, Call (Sys_fcntl_SETFD 3 (rv q OR FD_CLOEXEC)) s] \<and>
         rv q \<noteq> - 1 \<and> rv s \<noteq> - 1)) \<and>
   is_Abort (init_once (build False False) (boot [gives 3, fails (EOTHER 9)])) \<and>
   is_Abort (init_once (build False False) (boot [gives 3, gives 0, fails (EOTHER 9)]))"
proof -
  note defs = init_once_def init_urandom_def init_open_def init_cloexec_def
    do_while_EINTR.simps syscall_def answered_def log_def news_def
    boot_def build_def gives_def fails_def kUnset_def kHaveGetrandom_def FD_CLOEXEC_def
  have 1: "is_Abort (init_cloexec 3 (boot [fails (EOTHER 9)]))"
    using init_once_cloexec [where w = "boot [fails (EOTHER 9)]" and q = "fails (EOTHER 9)"
        and rest = "[]" and fd = 3]
    by (simp add: boot_def fails_def)
  have 2: "init_cloexec 3 (boot [fails ENOSYS]) =
     Return () ((boot [])\<lparr>errno := ENOSYS, urandom_fd := 3,
                         trace := [Call (Sys_fcntl_GETFD 3) (fails ENOSYS)]\<rparr>)"
    using init_once_cloexec [where w = "boot [fails ENOSYS]" and q = "fails ENOSYS" and rest = "[]"
        and fd = 3]
    by (simp add: boot_def fails_def)
  have 3: "is_Abort (init_cloexec 3 (boot [gives 0, fails (EOTHER 9)]))"
    using init_once_cloexec [where w = "boot [gives 0, fails (EOTHER 9)]" and q = "gives 0"
        and s = "fails (EOTHER 9)" and rest = "[]" and fd = 3]
    by (simp add: boot_def fails_def gives_def)
  have 4: "init_cloexec 3 (boot [gives 0, gives 0]) =
     Return () ((boot [])\<lparr>urandom_fd := 3,
                         trace := [Call (Sys_fcntl_GETFD 3) (gives 0),
                                   Call (Sys_fcntl_SETFD 3 1) (gives 0)]\<rparr>)"
    using init_once_cloexec [where w = "boot [gives 0, gives 0]" and q = "gives 0" and s = "gives 0"
        and rest = "[]" and fd = 3]
    by (simp add: boot_def gives_def FD_CLOEXEC_def)
  let ?init = "boot [gives 3, gives 0, gives 0]"
  let ?done = "(boot [])\<lparr>urandom_fd := 3, trace :=
       [Lock_read, Unlock_read, Call Sys_open (gives 3),
        Call (Sys_fcntl_GETFD 3) (gives 0), Call (Sys_fcntl_SETFD 3 1) (gives 0)]\<rparr>"
  have run: "init_once (build False False) ?init = Return () ?done"
    by (simp add: defs)
  have legacy: "urandom_fd ?done \<noteq> kHaveGetrandom" and fd: "urandom_fd ?done = 3"
    by (simp_all add: boot_def kHaveGetrandom_def)
  have no_enosys: "\<not> (\<exists>pre q. news ?init ?done = pre @ [Call (Sys_fcntl_GETFD (urandom_fd ?done)) q] \<and>
         rv q = - 1 \<and> rerrno q = ENOSYS)"
    by (simp add: defs)
  from init_once_cloexec [where cfg = "build False False" and ?w0.0 = ?init and u = "()"
      and ?w1.0 = ?done] run legacy
  have "(\<exists>pre q. news ?init ?done = pre @ [Call (Sys_fcntl_GETFD (urandom_fd ?done)) q] \<and>
         rv q = - 1 \<and> rerrno q = ENOSYS) \<or>
      (\<exists>pre q s. news ?init ?done =
           pre @ [Call (Sys_fcntl_GETFD (urandom_fd ?done)) q,
                  Call (Sys_fcntl_SETFD (urandom_fd ?done) (rv q OR FD_CLOEXEC)) s] \<and>
         rv q \<noteq> - 1 \<and> rv s \<noteq> - 1)"
    by blast
  with no_enosys have "\<exists>pre q s. news ?init ?done =
           pre @ [Call (Sys_fcntl_GETFD (urandom_fd ?done)) q,
                  Call (Sys_fcntl_SETFD (urandom_fd ?done) (rv q OR FD_CLOEXEC)) s] \<and>
         rv q \<noteq> - 1 \<and> rv s \<noteq> - 1"
    by blast
  with run fd
  have 5: "\<exists>w1. init_once (build False False) ?init = Return () w1 \<and> urandom_fd w1 = 3 \<and>
      (\<exists>pre q s. news ?init w1 =
           pre @ [Call (Sys_fcntl_GETFD 3) q, Call (Sys_fcntl_SETFD 3 (rv q OR FD_CLOEXEC)) s] \<and>
         rv q \<noteq> - 1 \<and> rv s \<noteq> - 1)"
    by (simp only:) blast
  let ?bad = "boot [gives 3, fails (EOTHER 9)]"
  have "Call (Sys_fcntl_GETFD 3) (fails (EOTHER 9)) \<in>
      set (news ?bad (world_of (init_once (build False False) ?bad)))"
    by (simp add: defs)
  with init_once_cloexec [where cfg = "build False False" and ?w0.0 = ?bad and fd' = 3
      and q' = "fails (EOTHER 9)"]
  have 6: "is_Abort (init_once (build False False) ?bad)"
    by (simp add: fails_def)
  let ?worse = "boot [gives 3, gives 0, fails (EOTHER 9)]"
  have "Call (Sys_fcntl_SETFD 3 1) (fails (EOTHER 9)) \<in>
      set (news ?worse (world_of (init_once (build False False) ?worse)))"
    by (simp add: defs)
  with init_once_cloexec [where cfg = "build False False" and ?w0.0 = ?worse and fd' = 3
      and flags = 1 and s' = "fails (EOTHER 9)"]
  have 7: "is_Abort (init_once (build False False) ?worse)"
    by (simp add: fails_def)
  from 1 2 3 4 5 6 7 show ?thesis by blast
qed

subsection \<open>Interruptions at the four loops do not show\<close>

lemma alike_refl [simp]: "alike w w"
  by (simp add: alike_def)

lemma alike_log [simp]:
  "alike (log e v) w = alike v w"
  "alike v (log e w) = alike v w"
  by (simp_all add: alike_def)

lemma alike_answered:
  "alike v w \<Longrightarrow> alike (answered c r (v\<lparr>kernel := rs\<rparr>)) (answered c r (w\<lparr>kernel := rs\<rparr>))"
  by (simp add: alike_def)

lemma alike_commit:
  "alike v w \<Longrightarrow> alike (v\<lparr>urandom_fd := fd\<rparr>) (w\<lparr>urandom_fd := fd\<rparr>)"
  "alike v w \<Longrightarrow> alike (v\<lparr>once := b\<rparr>) (w\<lparr>once := b\<rparr>)"
  by (simp_all add: alike_def)

lemma alike_interrupted:
  "\<forall>r\<in>set ints. is_eintr r \<Longrightarrow>
   alike ((interrupted c ints w)\<lparr>kernel := rs\<rparr>) (w\<lparr>kernel := rs\<rparr>)"
  by (simp add: alike_def interrupted_def)

lemma same_bind:
  assumes "same_outcome m1 m2"
    and "\<And>a v w. alike v w \<Longrightarrow> same_outcome (g1 a v) (g2 a w)"
  shows "same_outcome
           (case m1 of Return a v \<Rightarrow> g1 a v | Abort v \<Rightarrow> Abort v | Block v \<Rightarrow> Block v)
           (case m2 of Return a w \<Rightarrow> g2 a w | Abort w \<Rightarrow> Abort w | Block w \<Rightarrow> Block w)"
  using assms by (cases m1; cases m2) simp_all

lemma same_Return: "alike v w \<Longrightarrow> same_outcome (Return a v) (Return a w)"
  by simp

lemma do_while_EINTR_alike:
  "alike v w \<Longrightarrow> same_outcome (do_while_EINTR c v) (do_while_EINTR c w)"
proof (induction c v arbitrary: w rule: do_while_EINTR.induct)
  case (1 c v)
  show ?case
  proof (cases "kernel v")
    case Nil
    with "1.prems" have "kernel w = []"
      by (simp add: alike_def)
    with Nil "1.prems" show ?thesis
      by (simp add: do_while_EINTR_Nil)
  next
    case (Cons r rs)
    with "1.prems" have kw: "kernel w = r # rs"
      by (simp add: alike_def)
    let ?v1 = "answered c r (v\<lparr>kernel := rs\<rparr>)"
    let ?w1 = "answered c r (w\<lparr>kernel := rs\<rparr>)"
    from "1.prems" have step: "alike ?v1 ?w1"
      by (rule alike_answered)
    show ?thesis
    proof (cases "is_eintr r")
      case True
      from Cons have "syscall c v = Return r ?v1"
        by (rule syscall_Cons)
      moreover from True have "rv r = - 1 \<and> errno ?v1 = EINTR"
        by (simp add: is_eintr_def)
      ultimately have "same_outcome (do_while_EINTR c ?v1) (do_while_EINTR c ?w1)"
        using step by (rule "1.IH")
      with True Cons kw show ?thesis
        by (simp add: do_while_EINTR_retry)
    next
      case False
      with Cons kw step show ?thesis
        by (simp add: do_while_EINTR_done)
    qed
  qed
qed

lemma syscall_alike [consumes 1, case_names Block Return]:
  assumes "alike v w"
  obtains (Block) "syscall c v = Block v" "syscall c w = Block w"
  | (Return) r rs where
      "syscall c v = Return r (answered c r (v\<lparr>kernel := rs\<rparr>))"
      "syscall c w = Return r (answered c r (w\<lparr>kernel := rs\<rparr>))"
      "alike (answered c r (v\<lparr>kernel := rs\<rparr>)) (answered c r (w\<lparr>kernel := rs\<rparr>))"
proof (cases "kernel v")
  case Nil
  with assms have "kernel w = []"
    by (simp add: alike_def)
  with Nil Block show ?thesis
    by (simp add: syscall_Nil)
next
  case (Cons r rs)
  with assms have "kernel w = r # rs"
    by (simp add: alike_def)
  with Cons assms Return [of r rs] show ?thesis
    by (simp add: syscall_Cons alike_answered)
qed

lemma init_getrandom_alike:
  assumes "alike v w"
  shows "same_outcome (init_getrandom v) (init_getrandom w)"
  using assms
proof (cases rule: syscall_alike [where c = "Sys_getrandom Dummy 1 GRND_NONBLOCK"])
  case Block
  with assms show ?thesis by (simp add: init_getrandom_def)
next
  case (Return r rs)
  let ?v1 = "answered (Sys_getrandom Dummy 1 GRND_NONBLOCK) r (v\<lparr>kernel := rs\<rparr>)"
  let ?w1 = "answered (Sys_getrandom Dummy 1 GRND_NONBLOCK) r (w\<lparr>kernel := rs\<rparr>)"
  let ?msg = "Fprintf Msg_pool_not_initialized"
  from Return have "same_outcome (do_while_EINTR (Sys_getrandom Dummy 1 0) (log ?msg ?v1))
      (do_while_EINTR (Sys_getrandom Dummy 1 0) (log ?msg ?w1))"
    by (intro do_while_EINTR_alike) simp
  then have "same_outcome
      (case do_while_EINTR (Sys_getrandom Dummy 1 0) (log ?msg ?v1) of
         Return r2 w2 \<Rightarrow>
           if rv r2 = 1 then Return True (w2\<lparr>urandom_fd := kHaveGetrandom\<rparr>) else Return False w2
       | Abort w2 \<Rightarrow> Abort w2
       | Block w2 \<Rightarrow> Block w2)
      (case do_while_EINTR (Sys_getrandom Dummy 1 0) (log ?msg ?w1) of
         Return r2 w2 \<Rightarrow>
           if rv r2 = 1 then Return True (w2\<lparr>urandom_fd := kHaveGetrandom\<rparr>) else Return False w2
       | Abort w2 \<Rightarrow> Abort w2
       | Block w2 \<Rightarrow> Block w2)"
    by (rule same_bind) (simp add: alike_commit)
  with Return show ?thesis
    by (simp add: init_getrandom_def alike_commit)
qed

lemma init_open_alike:
  assumes "alike v w"
  shows "same_outcome (init_open fd v) (init_open fd w)"
proof (cases "fd = kUnset")
  case True
  from assms have "same_outcome (do_while_EINTR Sys_open v) (do_while_EINTR Sys_open w)"
    by (rule do_while_EINTR_alike)
  then have "same_outcome
      (case do_while_EINTR Sys_open v of
         Return r w' \<Rightarrow> Return (rv r) w' | Abort w' \<Rightarrow> Abort w' | Block w' \<Rightarrow> Block w')
      (case do_while_EINTR Sys_open w of
         Return r w' \<Rightarrow> Return (rv r) w' | Abort w' \<Rightarrow> Abort w' | Block w' \<Rightarrow> Block w')"
    by (rule same_bind) simp
  with True show ?thesis by (simp add: init_open_def)
next
  case False
  with assms show ?thesis by (simp add: init_open_def)
qed

lemma init_fips_alike:
  "alike v w \<Longrightarrow> same_outcome (init_fips fd first v) (init_fips fd first w)"
proof (induction fd first v arbitrary: w rule: init_fips.induct)
  case (1 fd first v)
  let ?q = "Sys_ioctl_RNDGETENTCNT fd"
  show ?case
    using "1.prems"
  proof (cases rule: syscall_alike [where c = ?q])
    case Block
    with "1.prems" show ?thesis
      by (simp add: init_fips.simps [of fd first v] init_fips.simps [of fd first w])
  next
    case (Return r rs)
    let ?v1 = "answered ?q r (v\<lparr>kernel := rs\<rparr>)"
    let ?w1 = "answered ?q r (w\<lparr>kernel := rs\<rparr>)"
    let ?v2 = "log (Usleep 250000)
                 (if first then log (Fprintf (Msg_too_few_bits (rout r) kBitsNeeded)) ?v1 else ?v1)"
    let ?w2 = "log (Usleep 250000)
                 (if first then log (Fprintf (Msg_too_few_bits (rout r) kBitsNeeded)) ?w1 else ?w1)"
    show ?thesis
    proof (cases "rv r \<noteq> 0 \<or> kBitsNeeded \<le> rout r")
      case True
      with Return show ?thesis
        by (auto simp: init_fips.simps [of fd first v] init_fips.simps [of fd first w])
    next
      case False
      from Return(3) have "alike ?v2 ?w2"
        by simp
      with "1.IH" [OF Return(1)] False
      have "same_outcome (init_fips fd False ?v2) (init_fips fd False ?w2)"
        by simp
      with False Return show ?thesis
        by (simp add: init_fips.simps [of fd first v] init_fips.simps [of fd first w])
    qed
  qed
qed

lemma init_cloexec_alike:
  assumes "alike v w"
  shows "same_outcome (init_cloexec fd v) (init_cloexec fd w)"
  using assms
proof (cases rule: syscall_alike [where c = "Sys_fcntl_GETFD fd"])
  case Block
  with assms show ?thesis by (simp add: init_cloexec_def)
next
  case (Return r rs)
  let ?v1 = "answered (Sys_fcntl_GETFD fd) r (v\<lparr>kernel := rs\<rparr>)"
  let ?w1 = "answered (Sys_fcntl_GETFD fd) r (w\<lparr>kernel := rs\<rparr>)"
  show ?thesis
  proof (cases "rv r = - 1")
    case True
    with Return show ?thesis
      by (simp add: init_cloexec_def alike_commit)
  next
    case False
    show ?thesis
      using Return(3)
    proof (cases rule: syscall_alike [where c = "Sys_fcntl_SETFD fd (rv r OR FD_CLOEXEC)"])
      case Block
      with False Return show ?thesis
        by (simp add: init_cloexec_def)
    next
      case set: (Return s rs2)
      with False Return show ?thesis
        by (simp add: init_cloexec_def alike_commit)
    qed
  qed
qed

lemma init_urandom_alike:
  assumes "alike v w"
  shows "same_outcome (init_urandom cfg fd v) (init_urandom cfg fd w)"
  unfolding init_urandom_def
proof (rule same_bind)
  show "same_outcome (init_open fd v) (init_open fd w)"
    using assms by (rule init_open_alike)
next
  fix fd1 v1 w1
  assume a: "alike v1 w1"
  have gate: "same_outcome
      (if boringssl_fips cfg then init_fips fd1 True v1 else Return () v1)
      (if boringssl_fips cfg then init_fips fd1 True w1 else Return () w1)"
    using a by (simp add: init_fips_alike)
  have "same_outcome
      (case if boringssl_fips cfg then init_fips fd1 True v1 else Return () v1 of
         Return u w2 \<Rightarrow> init_cloexec fd1 w2 | Abort w2 \<Rightarrow> Abort w2 | Block w2 \<Rightarrow> Block w2)
      (case if boringssl_fips cfg then init_fips fd1 True w1 else Return () w1 of
         Return u w2 \<Rightarrow> init_cloexec fd1 w2 | Abort w2 \<Rightarrow> Abort w2 | Block w2 \<Rightarrow> Block w2)"
    using gate by (rule same_bind) (rule init_cloexec_alike)
  with a show "same_outcome
      (if fd1 < 0 then Abort v1
       else case if boringssl_fips cfg then init_fips fd1 True v1 else Return () v1 of
              Return u w2 \<Rightarrow> init_cloexec fd1 w2 | Abort w2 \<Rightarrow> Abort w2 | Block w2 \<Rightarrow> Block w2)
      (if fd1 < 0 then Abort w1
       else case if boringssl_fips cfg then init_fips fd1 True w1 else Return () w1 of
              Return u w2 \<Rightarrow> init_cloexec fd1 w2 | Abort w2 \<Rightarrow> Abort w2 | Block w2 \<Rightarrow> Block w2)"
    by simp
qed

lemma init_once_after_probe:
  assumes "same_outcome
      (if use_sys_getrandom cfg then init_getrandom (log Unlock_read (log Lock_read v))
       else Return False (log Unlock_read (log Lock_read v)))
      (if use_sys_getrandom cfg then init_getrandom (log Unlock_read (log Lock_read w))
       else Return False (log Unlock_read (log Lock_read w)))"
    and "urandom_fd_requested v = urandom_fd_requested w"
  shows "same_outcome (init_once cfg v) (init_once cfg w)"
proof -
  have "same_outcome
      (case if use_sys_getrandom cfg then init_getrandom (log Unlock_read (log Lock_read v))
            else Return False (log Unlock_read (log Lock_read v)) of
         Return committed w1 \<Rightarrow>
           if committed then Return () w1 else init_urandom cfg (urandom_fd_requested w) w1
       | Abort w1 \<Rightarrow> Abort w1
       | Block w1 \<Rightarrow> Block w1)
      (case if use_sys_getrandom cfg then init_getrandom (log Unlock_read (log Lock_read w))
            else Return False (log Unlock_read (log Lock_read w)) of
         Return committed w1 \<Rightarrow>
           if committed then Return () w1 else init_urandom cfg (urandom_fd_requested w) w1
       | Abort w1 \<Rightarrow> Abort w1
       | Block w1 \<Rightarrow> Block w1)"
    using assms(1) by (rule same_bind) (simp add: init_urandom_alike)
  with assms(2) show ?thesis
    by (simp add: init_once_def Let_def)
qed

lemma init_once_alike:
  assumes "alike v w"
  shows "same_outcome (init_once cfg v) (init_once cfg w)"
proof (rule init_once_after_probe)
  from assms show "urandom_fd_requested v = urandom_fd_requested w"
    by (simp add: alike_def)
  from assms have "alike (log Unlock_read (log Lock_read v)) (log Unlock_read (log Lock_read w))"
    by simp
  then show "same_outcome
      (if use_sys_getrandom cfg then init_getrandom (log Unlock_read (log Lock_read v))
       else Return False (log Unlock_read (log Lock_read v)))
      (if use_sys_getrandom cfg then init_getrandom (log Unlock_read (log Lock_read w))
       else Return False (log Unlock_read (log Lock_read w)))"
    by (simp add: init_getrandom_alike)
qed

lemma fill_call_alike:
  assumes "alike v w"
  shows "same_outcome (fill_call cfg out len v) (fill_call cfg out len w)"
proof -
  from assms have "urandom_fd v = urandom_fd w"
    by (simp add: alike_def)
  with assms show ?thesis
    by (simp add: fill_call_def do_while_EINTR_alike)
qed

lemma fill_with_entropy_alike:
  "alike v w \<Longrightarrow>
   same_outcome (fill_with_entropy cfg out len v) (fill_with_entropy cfg out len w)"
proof (induction cfg out len v arbitrary: w rule: fill_with_entropy.induct)
  case (1 cfg out len v)
  show ?case
  proof (cases "0 < len")
    case False
    with "1.prems" show ?thesis by (simp add: fill_with_entropy_zero)
  next
    case True
    from "1.prems" have call: "same_outcome (fill_call cfg out len v) (fill_call cfg out len w)"
      by (rule fill_call_alike)
    show ?thesis
    proof (cases "fill_call cfg out len v")
      case (Return r v1)
      with call obtain w1 where w1: "fill_call cfg out len w = Return r w1" "alike v1 w1"
        by (cases "fill_call cfg out len w") simp_all
      show ?thesis
      proof (cases "rv r \<le> 0")
        case le: True
        with True Return w1 show ?thesis
          by (simp add: fill_with_entropy.simps [of cfg out len v]
              fill_with_entropy.simps [of cfg out len w])
      next
        case gt: False
        from "1.IH" [OF True Return gt w1(2)] True Return w1 gt show ?thesis
          by (simp add: fill_with_entropy.simps [of cfg out len v]
              fill_with_entropy.simps [of cfg out len w])
      qed
    next
      case (Abort v1)
      with call True show ?thesis
        by (cases "fill_call cfg out len w")
           (simp_all add: fill_with_entropy.simps [of cfg out len v]
              fill_with_entropy.simps [of cfg out len w])
    next
      case (Block v1)
      with call True show ?thesis
        by (cases "fill_call cfg out len w")
           (simp_all add: fill_with_entropy.simps [of cfg out len v]
              fill_with_entropy.simps [of cfg out len w])
    qed
  qed
qed

lemma fill_with_entropy_interrupted:
  assumes "\<forall>r\<in>set ints. is_eintr r" and "kernel w = ints @ rs" and "0 < len"
    and "selected cfg w"
  shows "fill_with_entropy cfg out len w =
         fill_with_entropy cfg out len
           ((interrupted (mechanism w out len) ints w)\<lparr>kernel := rs\<rparr>)"
proof -
  let ?w1 = "(interrupted (mechanism w out len) ints w)\<lparr>kernel := rs\<rparr>"
  have "mechanism ?w1 = mechanism w" and "selected cfg ?w1 = selected cfg w"
    by (simp_all add: mechanism_def selected_def interrupted_def fun_eq_iff)
  with assms have "fill_call cfg out len w = fill_call cfg out len ?w1"
    by (simp add: fill_call_selected do_while_EINTR_interrupted [of ints w rs])
  with \<open>0 < len\<close> show ?thesis
    by (simp add: fill_with_entropy.simps [of cfg out len w]
        fill_with_entropy.simps [of cfg out len ?w1])
qed

lemma init_getrandom_declines:
  assumes "kernel w = p # rs" and "rv p \<noteq> 1" and "\<not> (rv p = - 1 \<and> rerrno p = EAGAIN)"
  shows "init_getrandom w =
         Return False (answered (Sys_getrandom Dummy 1 GRND_NONBLOCK) p (w\<lparr>kernel := rs\<rparr>))"
  using assms by (auto simp: init_getrandom_def syscall_Cons)

lemma init_getrandom_EAGAIN:
  assumes "kernel w = p # rs" and "rv p = - 1" and "rerrno p = EAGAIN"
  shows "init_getrandom w =
         (case do_while_EINTR (Sys_getrandom Dummy 1 0)
                 (log (Fprintf Msg_pool_not_initialized)
                    (answered (Sys_getrandom Dummy 1 GRND_NONBLOCK) p (w\<lparr>kernel := rs\<rparr>))) of
            Return r2 w2 \<Rightarrow>
              if rv r2 = 1 then Return True (w2\<lparr>urandom_fd := kHaveGetrandom\<rparr>)
              else Return False w2
          | Abort w2 \<Rightarrow> Abort w2
          | Block w2 \<Rightarrow> Block w2)"
  using assms by (simp add: init_getrandom_def syscall_Cons)

lemma init_urandom_interrupted:
  assumes "\<forall>r\<in>set ints. is_eintr r" and "kernel w = ints @ rs"
  shows "init_urandom cfg kUnset w =
         init_urandom cfg kUnset ((interrupted Sys_open ints w)\<lparr>kernel := rs\<rparr>)"
  using assms
  by (simp add: init_urandom_def init_open_def do_while_EINTR_interrupted [of ints w rs])

lemma init_once_blocking_fetch_interrupted:
  assumes "\<forall>r\<in>set ints. is_eintr r" and "use_sys_getrandom cfg"
    and "rv p = - 1" and "rerrno p = EAGAIN" and "kernel w = p # ints @ rs"
  shows "same_outcome (init_once cfg w) (init_once cfg (w\<lparr>kernel := p # rs\<rparr>))"
proof (rule init_once_after_probe)
  let ?probe = "Sys_getrandom Dummy 1 GRND_NONBLOCK"
  let ?fetch = "Sys_getrandom Dummy 1 0"
  let ?msg = "Fprintf Msg_pool_not_initialized"
  let ?a = "log Unlock_read (log Lock_read w)"
  let ?b = "log Unlock_read (log Lock_read (w\<lparr>kernel := p # rs\<rparr>))"
  let ?a1 = "log ?msg (answered ?probe p (?a\<lparr>kernel := ints @ rs\<rparr>))"
  let ?b1 = "log ?msg (answered ?probe p (?b\<lparr>kernel := rs\<rparr>))"
  let ?a2 = "(interrupted ?fetch ints ?a1)\<lparr>kernel := rs\<rparr>"
  have "kernel ?a1 = ints @ rs"
    by simp
  with assms(1) have "do_while_EINTR ?fetch ?a1 = do_while_EINTR ?fetch ?a2"
    by (rule do_while_EINTR_interrupted)
  moreover have "alike ?a2 ?b1"
    by (simp add: alike_def interrupted_def)
  then have "same_outcome (do_while_EINTR ?fetch ?a2) (do_while_EINTR ?fetch ?b1)"
    by (rule do_while_EINTR_alike)
  ultimately have "same_outcome (do_while_EINTR ?fetch ?a1) (do_while_EINTR ?fetch ?b1)"
    by simp
  then have "same_outcome
      (case do_while_EINTR ?fetch ?a1 of
         Return r2 w2 \<Rightarrow>
           if rv r2 = 1 then Return True (w2\<lparr>urandom_fd := kHaveGetrandom\<rparr>) else Return False w2
       | Abort w2 \<Rightarrow> Abort w2
       | Block w2 \<Rightarrow> Block w2)
      (case do_while_EINTR ?fetch ?b1 of
         Return r2 w2 \<Rightarrow>
           if rv r2 = 1 then Return True (w2\<lparr>urandom_fd := kHaveGetrandom\<rparr>) else Return False w2
       | Abort w2 \<Rightarrow> Abort w2
       | Block w2 \<Rightarrow> Block w2)"
    by (rule same_bind) (simp add: alike_commit)
  moreover from assms have "kernel ?a = p # ints @ rs" and "kernel ?b = p # rs"
    by simp_all
  ultimately have "same_outcome (init_getrandom ?a) (init_getrandom ?b)"
    using assms(3,4) by (simp add: init_getrandom_EAGAIN)
  with assms(2) show "same_outcome
      (if use_sys_getrandom cfg then init_getrandom ?a else Return False ?a)
      (if use_sys_getrandom cfg then init_getrandom ?b else Return False ?b)"
    by simp
qed simp

lemma init_once_open_interrupted:
  assumes "\<forall>r\<in>set ints. is_eintr r" and "\<not> use_sys_getrandom cfg"
    and "urandom_fd_requested w = kUnset" and "kernel w = ints @ rs"
  shows "same_outcome (init_once cfg w) (init_once cfg (w\<lparr>kernel := rs\<rparr>))"
proof -
  let ?a = "log Unlock_read (log Lock_read w)"
  let ?b = "log Unlock_read (log Lock_read (w\<lparr>kernel := rs\<rparr>))"
  let ?a1 = "(interrupted Sys_open ints ?a)\<lparr>kernel := rs\<rparr>"
  from assms have "init_once cfg w = init_urandom cfg kUnset ?a"
    by (simp add: init_once_def Let_def)
  also from assms have "\<dots> = init_urandom cfg kUnset ?a1"
    by (intro init_urandom_interrupted) simp_all
  finally have "init_once cfg w = init_urandom cfg kUnset ?a1" .
  moreover from assms have "init_once cfg (w\<lparr>kernel := rs\<rparr>) = init_urandom cfg kUnset ?b"
    by (simp add: init_once_def Let_def)
  moreover have "alike ?a1 ?b"
    by (simp add: alike_def interrupted_def)
  then have "same_outcome (init_urandom cfg kUnset ?a1) (init_urandom cfg kUnset ?b)"
    by (rule init_urandom_alike)
  ultimately show ?thesis by simp
qed

lemma init_once_open_interrupted_after_probe:
  assumes "\<forall>r\<in>set ints. is_eintr r" and "use_sys_getrandom cfg"
    and "rv p \<noteq> 1" and "\<not> (rv p = - 1 \<and> rerrno p = EAGAIN)"
    and "urandom_fd_requested w = kUnset" and "kernel w = p # ints @ rs"
  shows "same_outcome (init_once cfg w) (init_once cfg (w\<lparr>kernel := p # rs\<rparr>))"
proof -
  let ?probe = "Sys_getrandom Dummy 1 GRND_NONBLOCK"
  let ?a = "answered ?probe p ((log Unlock_read (log Lock_read w))\<lparr>kernel := ints @ rs\<rparr>)"
  let ?b = "answered ?probe p
              ((log Unlock_read (log Lock_read (w\<lparr>kernel := p # rs\<rparr>)))\<lparr>kernel := rs\<rparr>)"
  let ?a1 = "(interrupted Sys_open ints ?a)\<lparr>kernel := rs\<rparr>"
  from assms have "init_once cfg w = init_urandom cfg kUnset ?a"
    by (simp add: init_once_def Let_def init_getrandom_declines [of _ p "ints @ rs"])
  also from assms have "\<dots> = init_urandom cfg kUnset ?a1"
    by (intro init_urandom_interrupted) simp_all
  finally have "init_once cfg w = init_urandom cfg kUnset ?a1" .
  moreover from assms have "init_once cfg (w\<lparr>kernel := p # rs\<rparr>) = init_urandom cfg kUnset ?b"
    by (simp add: init_once_def Let_def init_getrandom_declines [of _ p rs])
  moreover have "alike ?a1 ?b"
    by (simp add: alike_def interrupted_def)
  then have "same_outcome (init_urandom cfg kUnset ?a1) (init_urandom cfg kUnset ?b)"
    by (rule init_urandom_alike)
  ultimately show ?thesis by simp
qed

lemma fill_with_entropy_same_interrupted:
  assumes "\<forall>r\<in>set ints. is_eintr r" and "0 < len" and "selected cfg w"
    and "kernel w = ints @ rs"
  shows "same_outcome (fill_with_entropy cfg out len w)
           (fill_with_entropy cfg out len (w\<lparr>kernel := rs\<rparr>))"
proof -
  let ?w1 = "(interrupted (mechanism w out len) ints w)\<lparr>kernel := rs\<rparr>"
  from assms have "fill_with_entropy cfg out len w = fill_with_entropy cfg out len ?w1"
    by (intro fill_with_entropy_interrupted) simp_all
  moreover from assms(1) have "alike ?w1 (w\<lparr>kernel := rs\<rparr>)"
    by (rule alike_interrupted)
  then have "same_outcome (fill_with_entropy cfg out len ?w1)
      (fill_with_entropy cfg out len (w\<lparr>kernel := rs\<rparr>))"
    by (rule fill_with_entropy_alike)
  ultimately show ?thesis by simp
qed

lemma init_once_probe_interrupted:
  assumes "use_sys_getrandom cfg" and "is_eintr p" and "kernel w = p # rs"
  shows "init_once cfg w =
         init_urandom cfg (urandom_fd_requested w)
           (answered (Sys_getrandom Dummy 1 GRND_NONBLOCK) p
              ((log Unlock_read (log Lock_read w))\<lparr>kernel := rs\<rparr>))"
proof -
  from assms have "rv p \<noteq> 1" and "\<not> (rv p = - 1 \<and> rerrno p = EAGAIN)"
    by (simp_all add: is_eintr_def)
  with assms show ?thesis
    by (simp add: init_once_def Let_def init_getrandom_declines [of _ p rs])
qed

text \<open>
  Claim C4, as amended. Two outcomes are the same to the caller (\<open>same_outcome\<close>) when they
  end the same way with the same result and the worlds agree on the static variables, the
  heap and the replies still pending; the trace and \<open>errno\<close> are left out. Let every reply
  in \<open>ints\<close> be the interrupted failure. Then \<open>init_once\<close> with these replies in front of the
  answer to the blocking fetch (after a probe that failed with \<open>EAGAIN\<close>), or in front of
  the answer to \<open>open\<close> (in a build without \<open>getrandom\<close>, or after a probe that failed
  otherwise), has the same outcome as without them; so has \<open>fill_with_entropy\<close>, at any
  cursor and count, with these replies in front of the answer to its \<open>getrandom\<close> or
  \<open>read\<close>. Each of the four loops answers an interrupted call by issuing the same call
  again (\<open>interrupted\<close> appends these calls to the trace). The non-blocking probe is issued
  once: when it is interrupted, \<open>init_once\<close> goes on to the device like after any failure
  other than \<open>EAGAIN\<close>.
\<close>

theorem EINTR_retried_by_the_loops:
  assumes "\<forall>r\<in>set ints. is_eintr r"
  shows "(use_sys_getrandom cfg \<and> rv p = - 1 \<and> rerrno p = EAGAIN \<and> kernel w = p # ints @ rs \<longrightarrow>
            same_outcome (init_once cfg w) (init_once cfg (w\<lparr>kernel := p # rs\<rparr>))) \<and>
         (\<not> use_sys_getrandom cfg \<and> urandom_fd_requested w = kUnset \<and> kernel w = ints @ rs \<longrightarrow>
            same_outcome (init_once cfg w) (init_once cfg (w\<lparr>kernel := rs\<rparr>))) \<and>
         (use_sys_getrandom cfg \<and> rv p \<noteq> 1 \<and> \<not> (rv p = - 1 \<and> rerrno p = EAGAIN) \<and>
          urandom_fd_requested w = kUnset \<and> kernel w = p # ints @ rs \<longrightarrow>
            same_outcome (init_once cfg w) (init_once cfg (w\<lparr>kernel := p # rs\<rparr>))) \<and>
         (0 < len \<and> selected cfg w \<and> kernel w = ints @ rs \<longrightarrow>
            same_outcome (fill_with_entropy cfg out len w)
              (fill_with_entropy cfg out len (w\<lparr>kernel := rs\<rparr>)) \<and>
            fill_with_entropy cfg out len w =
              fill_with_entropy cfg out len
                ((interrupted (mechanism w out len) ints w)\<lparr>kernel := rs\<rparr>)) \<and>
         (kernel w = ints @ rs \<longrightarrow>
            do_while_EINTR c w = do_while_EINTR c ((interrupted c ints w)\<lparr>kernel := rs\<rparr>)) \<and>
         (use_sys_getrandom cfg \<and> is_eintr p \<and> kernel w = p # rs \<longrightarrow>
            init_once cfg w =
              init_urandom cfg (urandom_fd_requested w)
                (answered (Sys_getrandom Dummy 1 GRND_NONBLOCK) p
                   ((log Unlock_read (log Lock_read w))\<lparr>kernel := rs\<rparr>)))"
proof (intro conjI impI)
  assume "use_sys_getrandom cfg \<and> rv p = - 1 \<and> rerrno p = EAGAIN \<and> kernel w = p # ints @ rs"
  with assms show "same_outcome (init_once cfg w) (init_once cfg (w\<lparr>kernel := p # rs\<rparr>))"
    by (intro init_once_blocking_fetch_interrupted) simp_all
next
  assume "\<not> use_sys_getrandom cfg \<and> urandom_fd_requested w = kUnset \<and> kernel w = ints @ rs"
  with assms show "same_outcome (init_once cfg w) (init_once cfg (w\<lparr>kernel := rs\<rparr>))"
    by (intro init_once_open_interrupted) simp_all
next
  assume "use_sys_getrandom cfg \<and> rv p \<noteq> 1 \<and> \<not> (rv p = - 1 \<and> rerrno p = EAGAIN) \<and>
      urandom_fd_requested w = kUnset \<and> kernel w = p # ints @ rs"
  with assms show "same_outcome (init_once cfg w) (init_once cfg (w\<lparr>kernel := p # rs\<rparr>))"
    by (intro init_once_open_interrupted_after_probe) simp_all
next
  assume a: "0 < len \<and> selected cfg w \<and> kernel w = ints @ rs"
  with assms show "same_outcome (fill_with_entropy cfg out len w)
      (fill_with_entropy cfg out len (w\<lparr>kernel := rs\<rparr>))"
    by (intro fill_with_entropy_same_interrupted) simp_all
  from assms a show "fill_with_entropy cfg out len w =
      fill_with_entropy cfg out len ((interrupted (mechanism w out len) ints w)\<lparr>kernel := rs\<rparr>)"
    by (intro fill_with_entropy_interrupted) simp_all
next
  assume "kernel w = ints @ rs"
  with assms show "do_while_EINTR c w = do_while_EINTR c ((interrupted c ints w)\<lparr>kernel := rs\<rparr>)"
    by (rule do_while_EINTR_interrupted)
next
  assume "use_sys_getrandom cfg \<and> is_eintr p \<and> kernel w = p # rs"
  then show "init_once cfg w =
      init_urandom cfg (urandom_fd_requested w)
        (answered (Sys_getrandom Dummy 1 GRND_NONBLOCK) p
           ((log Unlock_read (log Lock_read w))\<lparr>kernel := rs\<rparr>))"
    by (intro init_once_probe_interrupted) simp_all
qed

theorem EINTR_retried_by_the_loops_witness:
  "same_outcome
     (init_once (build True False) (boot [fails EAGAIN, fails EINTR, fails EINTR, bytes [9]]))
     (init_once (build True False) (boot [fails EAGAIN, bytes [9]])) \<and>
   is_Return (init_once (build True False) (boot [fails EAGAIN, fails EINTR, fails EINTR, bytes [9]])) \<and>
   same_outcome
     (init_once (build False False) (boot [fails EINTR, fails EINTR, gives 3, gives 0, gives 0]))
     (init_once (build False False) (boot [gives 3, gives 0, gives 0])) \<and>
   is_Return (init_once (build False False) (boot [fails EINTR, fails EINTR, gives 3, gives 0, gives 0])) \<and>
   same_outcome
     (init_once (build True False) (boot [fails ENOSYS, fails EINTR, fails EINTR, gives 3, gives 0, gives 0]))
     (init_once (build True False) (boot [fails ENOSYS, gives 3, gives 0, gives 0])) \<and>
   same_outcome
     (fill_with_entropy (build False False) 0 3
        ((boot [fails EINTR, fails EINTR, bytes [1, 2, 3]])\<lparr>urandom_fd := 3\<rparr>))
     (fill_with_entropy (build False False) 0 3 ((boot [bytes [1, 2, 3]])\<lparr>urandom_fd := 3\<rparr>)) \<and>
   is_Return (fill_with_entropy (build False False) 0 3
        ((boot [fails EINTR, fails EINTR, bytes [1, 2, 3]])\<lparr>urandom_fd := 3\<rparr>)) \<and>
   init_once (build True False) (boot [fails EINTR, gives 3, gives 0, gives 0]) =
     init_urandom (build True False) kUnset
       ((boot [gives 3, gives 0, gives 0])\<lparr>errno := EINTR, trace :=
          [Lock_read, Unlock_read, Call (Sys_getrandom Dummy 1 GRND_NONBLOCK) (fails EINTR)]\<rparr>)"
proof -
  note defs = init_once_def init_urandom_def init_open_def init_cloexec_def init_getrandom_def
    fill_with_entropy.simps fill_call_def
    do_while_EINTR.simps syscall_def answered_def log_def
    boot_def build_def gives_def fails_def bytes_def kUnset_def kHaveGetrandom_def FD_CLOEXEC_def
  let ?ints = "[fails EINTR, fails EINTR]"
  have ints: "\<forall>r\<in>set ?ints. is_eintr r"
    by (simp add: is_eintr_def fails_def)
  have none: "\<forall>r\<in>set ([] :: reply list). is_eintr r"
    by simp
  let ?cfg = "build True False" and ?old = "build False False"
  let ?a = "boot [fails EAGAIN, fails EINTR, fails EINTR, bytes [9]]"
  have "use_sys_getrandom ?cfg \<and> rv (fails EAGAIN) = - 1 \<and> rerrno (fails EAGAIN) = EAGAIN \<and>
      kernel ?a = fails EAGAIN # ?ints @ [bytes [9]]"
    by (simp add: boot_def build_def fails_def)
  with EINTR_retried_by_the_loops [OF ints, where cfg = ?cfg and p = "fails EAGAIN"
        and w = ?a and rs = "[bytes [9]]"]
  have "same_outcome (init_once ?cfg ?a) (init_once ?cfg (?a\<lparr>kernel := [fails EAGAIN, bytes [9]]\<rparr>))"
    by blast
  then have 1: "same_outcome (init_once ?cfg ?a) (init_once ?cfg (boot [fails EAGAIN, bytes [9]]))"
    by (simp add: boot_def)
  let ?b = "boot [fails EINTR, fails EINTR, gives 3, gives 0, gives 0]"
  have "\<not> use_sys_getrandom ?old \<and> urandom_fd_requested ?b = kUnset \<and>
      kernel ?b = ?ints @ [gives 3, gives 0, gives 0]"
    by (simp add: boot_def build_def)
  with EINTR_retried_by_the_loops [OF ints, where cfg = ?old and w = ?b
        and rs = "[gives 3, gives 0, gives 0]"]
  have "same_outcome (init_once ?old ?b) (init_once ?old (?b\<lparr>kernel := [gives 3, gives 0, gives 0]\<rparr>))"
    by blast
  then have 2: "same_outcome (init_once ?old ?b) (init_once ?old (boot [gives 3, gives 0, gives 0]))"
    by (simp add: boot_def)
  let ?c = "boot [fails ENOSYS, fails EINTR, fails EINTR, gives 3, gives 0, gives 0]"
  have "use_sys_getrandom ?cfg \<and> rv (fails ENOSYS) \<noteq> 1 \<and>
      \<not> (rv (fails ENOSYS) = - 1 \<and> rerrno (fails ENOSYS) = EAGAIN) \<and>
      urandom_fd_requested ?c = kUnset \<and>
      kernel ?c = fails ENOSYS # ?ints @ [gives 3, gives 0, gives 0]"
    by (simp add: boot_def build_def fails_def)
  with EINTR_retried_by_the_loops [OF ints, where cfg = ?cfg and p = "fails ENOSYS" and w = ?c
        and rs = "[gives 3, gives 0, gives 0]"]
  have "same_outcome (init_once ?cfg ?c)
      (init_once ?cfg (?c\<lparr>kernel := [fails ENOSYS, gives 3, gives 0, gives 0]\<rparr>))"
    by blast
  then have 3: "same_outcome (init_once ?cfg ?c)
      (init_once ?cfg (boot [fails ENOSYS, gives 3, gives 0, gives 0]))"
    by (simp add: boot_def)
  let ?d = "(boot [fails EINTR, fails EINTR, bytes [1, 2, 3]])\<lparr>urandom_fd := 3\<rparr>"
  have "0 < (3::nat) \<and> selected ?old ?d \<and> kernel ?d = ?ints @ [bytes [1, 2, 3]]"
    by (simp add: boot_def selected_def kHaveGetrandom_def)
  with EINTR_retried_by_the_loops [OF ints, where cfg = ?old and len = 3 and out = 0
        and w = ?d and rs = "[bytes [1, 2, 3]]"]
  have "same_outcome (fill_with_entropy ?old 0 3 ?d)
      (fill_with_entropy ?old 0 3 (?d\<lparr>kernel := [bytes [1, 2, 3]]\<rparr>))"
    by blast
  then have 4: "same_outcome (fill_with_entropy ?old 0 3 ?d)
      (fill_with_entropy ?old 0 3 ((boot [bytes [1, 2, 3]])\<lparr>urandom_fd := 3\<rparr>))"
    by (simp add: boot_def)
  let ?e = "boot [fails EINTR, gives 3, gives 0, gives 0]"
  have "use_sys_getrandom ?cfg \<and> is_eintr (fails EINTR) \<and>
      kernel ?e = fails EINTR # [gives 3, gives 0, gives 0]"
    by (simp add: boot_def build_def fails_def is_eintr_def)
  with EINTR_retried_by_the_loops [OF none, where cfg = ?cfg and p = "fails EINTR" and w = ?e
        and rs = "[gives 3, gives 0, gives 0]"]
  have "init_once ?cfg ?e =
      init_urandom ?cfg (urandom_fd_requested ?e)
        (answered (Sys_getrandom Dummy 1 GRND_NONBLOCK) (fails EINTR)
           ((log Unlock_read (log Lock_read ?e))\<lparr>kernel := [gives 3, gives 0, gives 0]\<rparr>))"
    by blast
  then have 5: "init_once ?cfg ?e =
     init_urandom ?cfg kUnset
       ((boot [gives 3, gives 0, gives 0])\<lparr>errno := EINTR, trace :=
          [Lock_read, Unlock_read, Call (Sys_getrandom Dummy 1 GRND_NONBLOCK) (fails EINTR)]\<rparr>)"
    by (simp add: boot_def fails_def log_def answered_def)
  have 6: "is_Return (init_once (build True False) (boot [fails EAGAIN, fails EINTR, fails EINTR, bytes [9]]))"
    "is_Return (init_once (build False False) (boot [fails EINTR, fails EINTR, gives 3, gives 0, gives 0]))"
    "is_Return (fill_with_entropy (build False False) 0 3
        ((boot [fails EINTR, fails EINTR, bytes [1, 2, 3]])\<lparr>urandom_fd := 3\<rparr>))"
    by (simp_all add: defs)
  from 1 2 3 4 5 6 show ?thesis by blast
qed

text \<open>
  Claim C4 as stated fails at the non-blocking probe. Answered at once, the probe commits
  \<open>kHaveGetrandom\<close>. Interrupted once, it is not issued again: the trace holds one
  \<open>getrandom\<close>, then the opening of the device, and a descriptor is committed. With the
  same reply pending behind the interruption, the two runs end differently.
\<close>

theorem probe_EINTR_counterexample:
  "init_once (build True False) (boot [bytes [9]]) =
     Return () ((boot [])\<lparr>urandom_fd := kHaveGetrandom,
        trace := [Lock_read, Unlock_read, Call (Sys_getrandom Dummy 1 GRND_NONBLOCK) (bytes [9])]\<rparr>) \<and>
   init_once (build True False) (boot [fails EINTR, gives 3, gives 0, gives 0]) =
     Return () ((boot [])\<lparr>urandom_fd := 3, errno := EINTR,
        trace := [Lock_read, Unlock_read, Call (Sys_getrandom Dummy 1 GRND_NONBLOCK) (fails EINTR),
                  Call Sys_open (gives 3), Call (Sys_fcntl_GETFD 3) (gives 0),
                  Call (Sys_fcntl_SETFD 3 1) (gives 0)]\<rparr>) \<and>
   \<not> same_outcome (init_once (build True False) (boot [fails EINTR, bytes [9]]))
       (init_once (build True False) (boot [bytes [9]]))"
  by (simp add: init_once_def init_urandom_def init_open_def init_cloexec_def init_getrandom_def
      do_while_EINTR.simps syscall_def answered_def log_def
      boot_def build_def gives_def fails_def bytes_def kUnset_def kHaveGetrandom_def FD_CLOEXEC_def)

subsection \<open>The initializer, a call at a time\<close>













subsection \<open>Overriding while the initializer runs\<close>



lemma opened_append [simp]: "opened (xs @ ys) = opened xs @ opened ys"
  by (induction xs rule: opened.induct) simp_all















end
